theory Spec2Isabelle
  imports Complex_Main "HOL-Library.AList" "HOL-Library.Log_Nat"
begin

section \<open>Data model\<close>

text \<open>
  The game server of \<^verbatim>\<open>app.js\<close> keeps every game in one in-memory registry
  \<^verbatim>\<open>games\<close>. A player and a game are plain JavaScript objects; they become records.
  The field \<^verbatim>\<open>id\<close> of a player is \<open>pid\<close> and that of a game is \<open>gid\<close>
  (\<open>id\<close> is the identity function of HOL).

  Money, bids and round counters are JavaScript numbers that only ever hold integers
  (100 at the start, minus bids parsed by \<^verbatim>\<open>parseInt\<close>), so they are \<open>int\<close>.
  \<^verbatim>\<open>roundsWon\<close> accumulates the fractions 0.5, 0.4, 0.3 and 0.2 with the addition of
  IEEE 754 doubles. A finite double is the rational number it denotes, so \<open>roundsWon\<close>
  is a \<open>rat\<close>; the literals and the addition of the source are rounded to doubles
  (\<open>roundDouble\<close>, \<open>addDouble\<close> below). Comparisons of doubles are the
  comparisons of the rationals.
\<close>

datatype status = Waiting | Betting | RoundComplete | GameComplete

datatype error = TypeError

record player =
  pid :: string
  name :: string
  money :: int
  roundsWon :: rat
  host :: bool

text \<open>
  An object used as a dictionary (\<^verbatim>\<open>bets\<close>, \<^verbatim>\<open>lastRoundBets\<close>,
  \<^verbatim>\<open>actualPayments\<close>) is an association list in insertion order, read with
  \<open>map_of\<close> and written with \<open>AList.update\<close>. For the two display dictionaries the
  absent property and the empty object are both \<open>[]\<close>
  (\<^verbatim>\<open>game.lastRoundBets || {}\<close>). A property that is \<^verbatim>\<open>undefined\<close> or
  \<^verbatim>\<open>null\<close> is \<open>None\<close>; an absent \<^verbatim>\<open>showRoundResults\<close> is \<open>False\<close>.
  \<^verbatim>\<open>overallWinner\<close> refers to a player object; it is only read while the game is
  complete, when no player is mutated, so the player's record at assignment stands for it.
  The property \<^verbatim>\<open>roundWinner\<close> is written once (\<^verbatim>\<open>null\<close>) and never read; it is left out.
\<close>

record game =
  gid :: string
  createdAt :: int
  gameMode :: string
  players :: "player list"
  currentRound :: int
  totalRounds :: int
  roundsToWin :: int
  status :: status
  bets :: "(string \<times> int) list"
  roundWinners :: "string list option"
  overallWinner :: "player option"
  lastRoundBets :: "(string \<times> int) list"
  showRoundResults :: bool
  secondHighestBid :: "int option"
  thirdHighestBid :: "int option"
  actualPayments :: "(string \<times> int) list"

section \<open>Helpers of the settlement engine\<close>

text \<open>\<^verbatim>\<open>getTotalRoundsForPlayerCount\<close>\<close>

definition getTotalRoundsForPlayerCount :: "nat \<Rightarrow> int" where
  "getTotalRoundsForPlayerCount playerCount =
     (if playerCount \<le> 2 then 5
      else if playerCount = 3 then 7
      else 9)"

text \<open>
  The arithmetic of doubles. \<open>pow2 e\<close> is 2 to the power \<open>e\<close>, and \<open>floorLog2 x\<close>
  is the exponent of a positive \<open>x\<close>: the \<open>e\<close> with \<open>pow2 e \<le> x < pow2 (e + 1)\<close>.
  A double has a significand of 53 bits: \<open>roundDouble x\<close> is the multiple of the unit
  in the last place \<open>pow2 (e - 52)\<close> (of \<open>pow2 (- 1074)\<close> for subnormal numbers) nearest
  to \<open>x\<close>, the even one of two equally near. That is the rounding of a decimal literal and
  of the result of \<^verbatim>\<open>+\<close>. Numbers from \<open>pow2 1024\<close> on, which a double rounds to
  \<^verbatim>\<open>Infinity\<close>, are beyond every number of won rounds and are not modelled.
\<close>

definition pow2 :: "int \<Rightarrow> rat" where
  "pow2 e = (if e \<ge> 0 then 2 ^ nat e else 1 / 2 ^ nat (- e))"

definition floorLog2 :: "rat \<Rightarrow> int" where
  "floorLog2 x = (if x \<ge> 1 then bitlen \<lfloor>x\<rfloor> - 1 else - bitlen (\<lceil>1 / x\<rceil> - 1))"

definition roundHalfEven :: "rat \<Rightarrow> int" where
  "roundHalfEven q =
     (let n = \<lfloor>q\<rfloor>; r = q - of_int n
      in if r < 1 / 2 then n else if r > 1 / 2 then n + 1 else if even n then n else n + 1)"

definition roundDouble :: "rat \<Rightarrow> rat" where
  "roundDouble x =
     (if x = 0 then 0
      else let e = max (floorLog2 \<bar>x\<bar>) (- 1022); ulp = pow2 (e - 52)
           in of_int (roundHalfEven (x / ulp)) * ulp)"

text \<open>\<^verbatim>\<open>x + y\<close> and \<^verbatim>\<open>x += y\<close> on doubles.\<close>

definition addDouble :: "rat \<Rightarrow> rat \<Rightarrow> rat" where
  "addDouble x y = roundDouble (x + y)"

text \<open>
  \<^verbatim>\<open>getFractionalWinAmount\<close>. The literals 1 and 0.5 are doubles; 0.4, 0.3 and 0.2 are
  the doubles nearest to 2/5, 3/10 and 1/5.
\<close>

definition getFractionalWinAmount :: "nat \<Rightarrow> rat" where
  "getFractionalWinAmount numWinners =
     (if numWinners \<le> 1 then 1
      else if numWinners = 2 then 1 / 2
      else if numWinners = 3 then roundDouble (2 / 5)
      else if numWinners = 4 then roundDouble (3 / 10)
      else roundDouble (1 / 5))"

text \<open>
  \<^verbatim>\<open>Object.entries\<close> lists the keys that are array indices (canonical decimal
  numerals below \<open>2^32 - 1\<close>) first, in ascending numeric order, and then every other
  key in insertion order.
\<close>

definition isDigit :: "char \<Rightarrow> bool" where
  "isDigit c = (48 \<le> (of_char c :: nat) \<and> (of_char c :: nat) \<le> 57)"

definition digitsValue :: "string \<Rightarrow> nat" where
  "digitsValue s = foldl (\<lambda>n c. 10 * n + ((of_char c :: nat) - 48)) 0 s"

definition isArrayIndex :: "string \<Rightarrow> bool" where
  "isArrayIndex s =
     (s \<noteq> [] \<and> list_all isDigit s \<and> (s = ''0'' \<or> hd s \<noteq> CHR ''0'')
      \<and> digitsValue s < 2 ^ 32 - 1)"

definition objectEntries :: "(string \<times> 'v) list \<Rightarrow> (string \<times> 'v) list" where
  "objectEntries obj =
     sort_key (\<lambda>e. digitsValue (fst e)) (filter (\<lambda>e. isArrayIndex (fst e)) obj)
     @ filter (\<lambda>e. \<not> isArrayIndex (fst e)) obj"

text \<open>
  The bids of the round, ranked: \<^verbatim>\<open>Object.entries(game.bets).map(...).sort((a, b) => b.amount - a.amount)\<close>.
  \<^verbatim>\<open>Array.prototype.sort\<close> is stable, and so is \<open>sort_key\<close>. A bid is the pair of
  \<^verbatim>\<open>playerId\<close> and \<^verbatim>\<open>amount\<close>.
\<close>

definition rankedBids :: "(string \<times> int) list \<Rightarrow> (string \<times> int) list" where
  "rankedBids obj = sort_key (\<lambda>bid. - snd bid) (objectEntries obj)"

definition highestBiddersOf :: "(string \<times> int) list \<Rightarrow> string list" where
  "highestBiddersOf bids = map fst (filter (\<lambda>bid. snd bid = snd (hd bids)) bids)"

definition secondHighestOf :: "(string \<times> int) list \<Rightarrow> int option" where
  "secondHighestOf bids =
     (if length bids > 1 then map_option snd (find (\<lambda>bid. snd bid < snd (hd bids)) bids)
      else None)"

definition thirdHighestOf :: "(string \<times> int) list \<Rightarrow> int option" where
  "thirdHighestOf bids =
     (let highestBidders = highestBiddersOf bids in
      if length bids > 2 \<and> length highestBidders > 1 then
        (let nonWinnerBids = filter (\<lambda>bid. fst bid \<notin> set highestBidders) bids in
         if length nonWinnerBids > 0 then Some (snd (hd nonWinnerBids)) else None)
      else None)"

text \<open>
  \<^verbatim>\<open>game.players.find(p => p.id === winnerId)\<close> returns the first player with that id,
  and the assignments to its fields mutate that one object in place.
\<close>

fun updateFirst :: "('a \<Rightarrow> bool) \<Rightarrow> ('a \<Rightarrow> 'a) \<Rightarrow> 'a list \<Rightarrow> 'a list" where
  "updateFirst P f [] = []"
| "updateFirst P f (x # xs) = (if P x then f x # xs else x # updateFirst P f xs)"

text \<open>
  One winner of the round. \<open>payment = None\<close> is the All-Pay body (only the win is
  credited); \<open>Some pay\<close> is the body of the Standard and Vickrey modes (the winner pays,
  the payment is recorded, the win is credited). When \<^verbatim>\<open>find\<close> returns
  \<^verbatim>\<open>undefined\<close>, reading a field of it throws a \<^verbatim>\<open>TypeError\<close> before anything is
  written; the error carries the game as mutated so far.
\<close>

definition creditWinner :: "int option \<Rightarrow> rat \<Rightarrow> string \<Rightarrow> game \<Rightarrow> (error \<times> game) + game" where
  "creditWinner payment credit winnerId game =
     (case find (\<lambda>p. pid p = winnerId) (players game) of
        None \<Rightarrow> Inl (TypeError, game)
      | Some winner \<Rightarrow>
          (case payment of
             None \<Rightarrow>
               Inr (game\<lparr>players :=
                     updateFirst (\<lambda>p. pid p = winnerId)
                       (\<lambda>w. w\<lparr>roundsWon := addDouble (roundsWon w) credit\<rparr>) (players game)\<rparr>)
           | Some pay \<Rightarrow>
               Inr (game\<lparr>players :=
                     updateFirst (\<lambda>p. pid p = winnerId)
                       (\<lambda>w. w\<lparr>money := money w - pay,
                              roundsWon := addDouble (roundsWon w) credit\<rparr>)
                       (players game),
                     actualPayments := AList.update (pid winner) pay (actualPayments game)\<rparr>)))"

text \<open>\<^verbatim>\<open>highestBidders.forEach(winnerId => ...)\<close>, which stops at the first throw.\<close>

fun forEachWinner ::
  "(string \<Rightarrow> game \<Rightarrow> (error \<times> game) + game) \<Rightarrow> string list \<Rightarrow> game \<Rightarrow> (error \<times> game) + game" where
  "forEachWinner body [] game = Inr game"
| "forEachWinner body (winnerId # rest) game =
     (case body winnerId game of
        Inl e \<Rightarrow> Inl e
      | Inr game' \<Rightarrow> forEachWinner body rest game')"

text \<open>
  The two branches every mode has: a single winner (a full win, paying \<open>singlePay\<close>)
  and two or more tied winners (the fractional win each, paying \<open>tiePay\<close>).
\<close>

definition awardWinners ::
  "int option \<Rightarrow> int option \<Rightarrow> rat \<Rightarrow> string list \<Rightarrow> game \<Rightarrow> (error \<times> game) + game" where
  "awardWinners singlePay tiePay fractionalWinAmount highestBidders game =
     (if length highestBidders = 1 then
        creditWinner singlePay 1 (hd highestBidders) game
      else if length highestBidders > 1 then
        forEachWinner (creditWinner tiePay fractionalWinAmount) highestBidders game
      else Inr game)"

text \<open>
  All-Pay: \<^verbatim>\<open>game.players.forEach(player => { const betAmount = game.bets[player.id] || 0;
  player.money -= betAmount; game.actualPayments[player.id] = betAmount; })\<close>
\<close>

definition betAmountOf :: "game \<Rightarrow> player \<Rightarrow> int" where
  "betAmountOf game player = (case map_of (bets game) (pid player) of None \<Rightarrow> 0 | Some b \<Rightarrow> b)"

definition payAllBids :: "game \<Rightarrow> game" where
  "payAllBids game =
     game\<lparr>players := map (\<lambda>player. player\<lparr>money := money player - betAmountOf game player\<rparr>) (players game),
          actualPayments :=
            fold (\<lambda>player. AList.update (pid player) (betAmountOf game player)) (players game)
              (actualPayments game)\<rparr>"

text \<open>
  Standard and Vickrey: \<^verbatim>\<open>game.players.forEach(player => { game.actualPayments[player.id] = 0; })\<close>
\<close>

definition zeroPayments :: "game \<Rightarrow> game" where
  "zeroPayments game =
     game\<lparr>actualPayments :=
            fold (\<lambda>player. AList.update (pid player) 0) (players game) (actualPayments game)\<rparr>"

section \<open>Termination predicate and overall winner\<close>

text \<open>\<^verbatim>\<open>shouldEndGame\<close>\<close>

definition shouldEndGame :: "game \<Rightarrow> bool" where
  "shouldEndGame game =
     (if gameMode game = ''all-pay'' then
        (\<exists>p \<in> set (players game). roundsWon p \<ge> of_int (roundsToWin game))
        \<or> currentRound game \<ge> totalRounds game
      else currentRound game \<ge> totalRounds game)"

text \<open>
  \<^verbatim>\<open>Math.max(...xs)\<close> is \<^verbatim>\<open>-Infinity\<close> for no argument (\<open>None\<close>); \<^verbatim>\<open>reduce\<close> without
  an initial value throws a \<^verbatim>\<open>TypeError\<close> on the empty array (\<open>None\<close>).
\<close>

definition mathMax :: "rat list \<Rightarrow> rat option" where
  "mathMax xs = (case xs of [] \<Rightarrow> None | x # ys \<Rightarrow> Some (fold max ys x))"

definition reduce :: "('a \<Rightarrow> 'a \<Rightarrow> 'a) \<Rightarrow> 'a list \<Rightarrow> 'a option" where
  "reduce f xs = (case xs of [] \<Rightarrow> None | x # ys \<Rightarrow> Some (foldl f x ys))"

text \<open>
  The callback of the money tie-break:
  \<^verbatim>\<open>(prev, current) => (prev.money > current.money) ? prev : current\<close>
\<close>

definition richer :: "player \<Rightarrow> player \<Rightarrow> player" where
  "richer prev current = (if money prev > money current then prev else current)"

text \<open>\<^verbatim>\<open>determineOverallWinner\<close>\<close>

definition determineOverallWinner :: "game \<Rightarrow> (error \<times> game) + game" where
  "determineOverallWinner game =
     (case (if gameMode game = ''all-pay''
            then find (\<lambda>p. roundsWon p \<ge> of_int (roundsToWin game)) (players game)
            else None) of
        Some playerWith3Wins \<Rightarrow> Inr (game\<lparr>overallWinner := Some playerWith3Wins\<rparr>)
      | None \<Rightarrow>
          (let maxWins = mathMax (map roundsWon (players game));
               playersWithMostWins = filter (\<lambda>p. Some (roundsWon p) = maxWins) (players game)
           in if length playersWithMostWins = 1 then
                Inr (game\<lparr>overallWinner := Some (hd playersWithMostWins)\<rparr>)
              else
                (case reduce richer playersWithMostWins of
                   None \<Rightarrow> Inl (TypeError, game)
                 | Some winnerByMoney \<Rightarrow> Inr (game\<lparr>overallWinner := Some winnerByMoney\<rparr>))))"

section \<open>Settling a round\<close>

text \<open>
  \<^verbatim>\<open>completeRound\<close>. The timer that hides the round results five seconds later is the
  separate step \<open>hideRoundResults\<close> below. The Vickrey branch is the \<^verbatim>\<open>else\<close> of the
  source: every mode string other than \<^verbatim>\<open>all-pay\<close> and \<^verbatim>\<open>standard\<close>.
\<close>

definition finishRound :: "game \<Rightarrow> (error \<times> game) + game" where
  "finishRound game =
     (if shouldEndGame game then determineOverallWinner (game\<lparr>status := GameComplete\<rparr>)
      else Inr game)"

definition settle :: "(string \<times> int) list \<Rightarrow> game \<Rightarrow> (error \<times> game) + game" where
  "settle bids game =
     (let highestBid = snd (hd bids);
          highestBidders = highestBiddersOf bids;
          secondHighestBid = secondHighestOf bids;
          thirdHighestBid = thirdHighestOf bids;
          fractionalWinAmount = getFractionalWinAmount (length highestBidders)
      in if gameMode game = ''all-pay'' then
           awardWinners None None fractionalWinAmount highestBidders (payAllBids game)
         else if gameMode game = ''standard'' then
           awardWinners (Some highestBid) (Some highestBid) fractionalWinAmount highestBidders
             (zeroPayments game)
         else
           awardWinners
             (Some (case secondHighestBid of Some s \<Rightarrow> s | None \<Rightarrow> highestBid))
             (Some (case thirdHighestBid of Some t \<Rightarrow> t
                    | None \<Rightarrow> (case secondHighestBid of Some s \<Rightarrow> s | None \<Rightarrow> 0)))
             fractionalWinAmount highestBidders (zeroPayments game))"

definition completeRound :: "game \<Rightarrow> (error \<times> game) + game" where
  "completeRound game =
     (let game1 = game\<lparr>lastRoundBets := bets game, showRoundResults := True\<rparr>;
          bids = rankedBids (bets game1)
      in if length bids = 0 then Inr (game1\<lparr>status := RoundComplete, roundWinners := Some []\<rparr>)
         else
           (case settle bids
                   (game1\<lparr>secondHighestBid := secondHighestOf bids,
                          thirdHighestBid := thirdHighestOf bids,
                          actualPayments := []\<rparr>) of
              Inl e \<Rightarrow> Inl e
            | Inr game2 \<Rightarrow>
                finishRound (game2\<lparr>roundWinners := Some (highestBiddersOf bids),
                                   status := RoundComplete\<rparr>)))"

definition hideRoundResults :: "game \<Rightarrow> game" where
  "hideRoundResults game = game\<lparr>showRoundResults := False\<rparr>"

section \<open>The registry of games and the routes\<close>

text \<open>
  The registry \<^verbatim>\<open>games\<close> maps a game id to its game. A route reads the game id of the
  URL, the user of the session (\<open>None\<close> when the session has none) and the request body,
  and answers with a response; it is a function from the registry to the response and the
  registry it leaves. Strings are lists of 8-bit characters.

  The ids that \<^verbatim>\<open>generateGameId\<close> and \<^verbatim>\<open>generatePlayerId\<close> draw, and the clock
  \<^verbatim>\<open>Date.now()\<close>, are arguments of the routes that use them. The pages
  \<^verbatim>\<open>GET /\<close>, \<^verbatim>\<open>GET /game/:gameId\<close> and \<^verbatim>\<open>GET /game/:gameId/state\<close> only read
  the registry and are not modelled.
\<close>

type_synonym games = "string \<rightharpoonup> game"

text \<open>The user of a session; its property \<^verbatim>\<open>name\<close> is \<open>userName\<close>.\<close>

record sessionUser =
  gameId :: string
  playerId :: string
  userName :: string

datatype response =
    RedirectHome string
  | RedirectGame string sessionUser
  | JsonError nat string
  | JsonSuccess
  | JsonSuccessGameComplete
  | ServerError error

text \<open>
  \<open>RedirectHome msg\<close> stores \<open>msg\<close> as the session's error and redirects to
  \<^verbatim>\<open>/\<close>; \<open>RedirectGame gameId user\<close> stores \<open>user\<close> in the session and redirects to
  the game's page; \<open>JsonError code msg\<close> is \<^verbatim>\<open>res.status(code).json({ error: msg })\<close>;
  \<open>ServerError\<close> is the answer to an exception that leaves the handler.
\<close>

definition isWhiteSpace :: "char \<Rightarrow> bool" where
  "isWhiteSpace c = ((of_char c :: nat) \<in> {9, 10, 11, 12, 13, 32, 160})"

definition trim :: "string \<Rightarrow> string" where
  "trim s = rev (dropWhile isWhiteSpace (rev (dropWhile isWhiteSpace s)))"

definition toUpperCase :: "string \<Rightarrow> string" where
  "toUpperCase s =
     map (\<lambda>c. if 97 \<le> (of_char c :: nat) \<and> (of_char c :: nat) \<le> 122
               then char_of ((of_char c :: nat) - 32) else c) s"

text \<open>\<^verbatim>\<open>!username || username.trim() === ''\<close>\<close>

definition noUsername :: "string option \<Rightarrow> bool" where
  "noUsername username =
     (case username of None \<Rightarrow> True | Some u \<Rightarrow> u = [] \<or> trim u = [])"

text \<open>\<^verbatim>\<open>POST /game/create\<close>\<close>

definition createGame ::
  "games \<Rightarrow> string \<Rightarrow> string \<Rightarrow> int \<Rightarrow> string option \<Rightarrow> string option \<Rightarrow> response \<times> games" where
  "createGame games newGameId newPlayerId now username bodyGameMode =
     (let mode = (case bodyGameMode of None \<Rightarrow> ''all-pay''
                  | Some m \<Rightarrow> if m = [] then ''all-pay'' else m)
      in if noUsername username then (RedirectHome ''Please enter a username'', games)
         else
           (let initialRounds = getTotalRoundsForPlayerCount 1 in
            (RedirectGame newGameId
               \<lparr>gameId = newGameId, playerId = newPlayerId, userName = the username\<rparr>,
             games(newGameId \<mapsto>
               \<lparr>gid = newGameId, createdAt = now, gameMode = mode,
                players = [\<lparr>pid = newPlayerId, name = the username, money = 100,
                            roundsWon = 0, host = True\<rparr>],
                currentRound = 0, totalRounds = initialRounds, roundsToWin = 3,
                status = Waiting, bets = [], roundWinners = None, overallWinner = None,
                lastRoundBets = [], showRoundResults = False, secondHighestBid = None,
                thirdHighestBid = None, actualPayments = []\<rparr>))))"

text \<open>\<^verbatim>\<open>POST /game/join\<close>\<close>

definition joinGame ::
  "games \<Rightarrow> string \<Rightarrow> string option \<Rightarrow> string option \<Rightarrow> response \<times> games" where
  "joinGame games newPlayerId bodyGameId username =
     (let normalized = map_option toUpperCase bodyGameId
      in if noUsername username then (RedirectHome ''Please enter a username'', games)
         else
           (case normalized of
              None \<Rightarrow> (RedirectHome ''Game not found'', games)
            | Some gId \<Rightarrow>
                (case (if gId = [] then None else games gId) of
                   None \<Rightarrow> (RedirectHome ''Game not found'', games)
                 | Some game \<Rightarrow>
                     if status game \<noteq> Waiting then
                       (RedirectHome ''Game has already started'', games)
                     else if \<exists>p \<in> set (players game). name p = the username then
                       (RedirectHome ''Username already taken in this game'', games)
                     else
                       (let newPlayer = \<lparr>pid = newPlayerId, name = the username, money = 100,
                                         roundsWon = 0, host = False\<rparr>;
                            joined = players game @ [newPlayer]
                        in (RedirectGame gId
                              \<lparr>gameId = gId, playerId = newPlayerId, userName = the username\<rparr>,
                            games(gId \<mapsto>
                              game\<lparr>players := joined,
                                   totalRounds := getTotalRoundsForPlayerCount (length joined)\<rparr>))))))"

text \<open>
  The checks every JSON route starts with: the game exists
  (\<^verbatim>\<open>!games[gameId]\<close>, 404) and the session's user belongs to it
  (\<^verbatim>\<open>!user || user.gameId !== gameId\<close>, 403).
\<close>

definition notInGame :: "sessionUser option \<Rightarrow> string \<Rightarrow> bool" where
  "notInGame user gId = (case user of None \<Rightarrow> True | Some u \<Rightarrow> gameId u \<noteq> gId)"

definition findPlayer :: "game \<Rightarrow> sessionUser option \<Rightarrow> player option" where
  "findPlayer game user = find (\<lambda>p. pid p = playerId (the user)) (players game)"

text \<open>\<^verbatim>\<open>!player || !player.host\<close>\<close>

definition notHost :: "player option \<Rightarrow> bool" where
  "notHost player = (case player of None \<Rightarrow> True | Some p \<Rightarrow> \<not> host p)"

text \<open>\<^verbatim>\<open>POST /game/:gameId/start\<close>\<close>

definition startGame :: "games \<Rightarrow> string \<Rightarrow> sessionUser option \<Rightarrow> response \<times> games" where
  "startGame games gId user =
     (case games gId of
        None \<Rightarrow> (JsonError 404 ''Game not found'', games)
      | Some game \<Rightarrow>
          if notInGame user gId then (JsonError 403 ''You are not in this game'', games)
          else if notHost (findPlayer game user) then
            (JsonError 403 ''Only the host can start the game'', games)
          else if length (players game) < 2 then
            (JsonError 400 ''Need at least 2 players to start'', games)
          else if status game \<noteq> Waiting then
            (JsonError 400 ''Game has already started'', games)
          else
            (JsonSuccess, games(gId \<mapsto> game\<lparr>status := Betting, currentRound := 1, bets := []\<rparr>)))"

text \<open>
  \<^verbatim>\<open>POST /game/:gameId/bet\<close>. The amount is the result of
  \<^verbatim>\<open>parseInt(req.body.amount, 10)\<close>, \<open>None\<close> for \<^verbatim>\<open>NaN\<close>.
\<close>

definition allPlayersHaveBet :: "game \<Rightarrow> bool" where
  "allPlayersHaveBet game = (\<forall>p \<in> set (players game). map_of (bets game) (pid p) \<noteq> None)"

definition placeBet ::
  "games \<Rightarrow> string \<Rightarrow> sessionUser option \<Rightarrow> int option \<Rightarrow> response \<times> games" where
  "placeBet games gId user amount =
     (case games gId of
        None \<Rightarrow> (JsonError 404 ''Game not found'', games)
      | Some game \<Rightarrow>
          if notInGame user gId then (JsonError 403 ''You are not in this game'', games)
          else
            (case findPlayer game user of
               None \<Rightarrow> (JsonError 404 ''Player not found'', games)
             | Some player \<Rightarrow>
                 if status game \<noteq> Betting then (JsonError 400 ''It is not betting time'', games)
                 else if map_of (bets game) (pid player) \<noteq> None then
                   (JsonError 400 ''You have already placed a bet this round'', games)
                 else
                   (case amount of
                      None \<Rightarrow> (JsonError 400 ''Invalid bet amount'', games)
                    | Some betAmount \<Rightarrow>
                        if betAmount < 0 \<or> betAmount > money player then
                          (JsonError 400 ''Invalid bet amount'', games)
                        else
                          (let placed = game\<lparr>bets := AList.update (pid player) betAmount (bets game)\<rparr>
                           in if allPlayersHaveBet placed then
                                (case completeRound placed of
                                   Inl (e, thrown) \<Rightarrow> (ServerError e, games(gId \<mapsto> thrown))
                                 | Inr completed \<Rightarrow> (JsonSuccess, games(gId \<mapsto> completed)))
                              else (JsonSuccess, games(gId \<mapsto> placed))))))"

text \<open>\<^verbatim>\<open>POST /game/:gameId/nextround\<close>\<close>

definition nextRound :: "games \<Rightarrow> string \<Rightarrow> sessionUser option \<Rightarrow> response \<times> games" where
  "nextRound games gId user =
     (case games gId of
        None \<Rightarrow> (JsonError 404 ''Game not found'', games)
      | Some game \<Rightarrow>
          if notInGame user gId then (JsonError 403 ''You are not in this game'', games)
          else if notHost (findPlayer game user) then
            (JsonError 403 ''Only the host can advance to the next round'', games)
          else if status game \<noteq> RoundComplete then
            (JsonError 400 ''Cannot start next round yet'', games)
          else if shouldEndGame game then
            (case determineOverallWinner (game\<lparr>status := GameComplete\<rparr>) of
               Inl (e, thrown) \<Rightarrow> (ServerError e, games(gId \<mapsto> thrown))
             | Inr completed \<Rightarrow> (JsonSuccessGameComplete, games(gId \<mapsto> completed)))
          else
            (JsonSuccess,
             games(gId \<mapsto> game\<lparr>currentRound := currentRound game + 1, status := Betting,
                                 bets := [], roundWinners := None, showRoundResults := False\<rparr>)))"

text \<open>\<^verbatim>\<open>POST /game/:gameId/reset\<close>\<close>

definition resetGame :: "games \<Rightarrow> string \<Rightarrow> sessionUser option \<Rightarrow> response \<times> games" where
  "resetGame games gId user =
     (case games gId of
        None \<Rightarrow> (JsonError 404 ''Game not found'', games)
      | Some game \<Rightarrow>
          if notInGame user gId then (JsonError 403 ''You are not in this game'', games)
          else if notHost (findPlayer game user) then
            (JsonError 403 ''Only the host can reset the game'', games)
          else
            (JsonSuccess,
             games(gId \<mapsto>
               game\<lparr>players := map (\<lambda>p. p\<lparr>money := 100, roundsWon := 0\<rparr>) (players game),
                    currentRound := 0, status := Waiting, bets := [], roundWinners := None,
                    overallWinner := None, lastRoundBets := [], showRoundResults := False,
                    secondHighestBid := None, actualPayments := []\<rparr>)))"

text \<open>
  The two timers: the one \<^verbatim>\<open>completeRound\<close> sets, which hides the round results of the
  game stored under the id if there is one, and the hourly sweep, which deletes the games
  created more than 24 hours before \<open>now\<close>.
\<close>

definition hideResultsTimer :: "games \<Rightarrow> string \<Rightarrow> games" where
  "hideResultsTimer games gId =
     (case games gId of None \<Rightarrow> games | Some game \<Rightarrow> games(gId \<mapsto> hideRoundResults game))"

definition cleanupGames :: "games \<Rightarrow> int \<Rightarrow> games" where
  "cleanupGames games now =
     (\<lambda>gId. case games gId of
               None \<Rightarrow> None
             | Some game \<Rightarrow>
                 if createdAt game \<noteq> 0 \<and> now - createdAt game > 24 * 60 * 60 * 1000 then None
                 else Some game)"

section \<open>Reachable registries\<close>

text \<open>
  One step of the server is one request or one timer. The source calls
  \<^verbatim>\<open>generateGameId\<close> and \<^verbatim>\<open>generatePlayerId\<close> its
  ``helper functions to generate unique IDs'': a generated game id is new to the registry
  and a generated player id is new to every game.
\<close>

definition freshPlayerId :: "games \<Rightarrow> string \<Rightarrow> bool" where
  "freshPlayerId games newPlayerId = (\<forall>g \<in> ran games. newPlayerId \<notin> pid ` set (players g))"

inductive step :: "games \<Rightarrow> games \<Rightarrow> bool" where
  step_create: "newGameId \<notin> dom games \<Longrightarrow> freshPlayerId games newPlayerId \<Longrightarrow>
     step games (snd (createGame games newGameId newPlayerId now username bodyGameMode))"
| step_join: "freshPlayerId games newPlayerId \<Longrightarrow>
     step games (snd (joinGame games newPlayerId bodyGameId username))"
| step_start: "step games (snd (startGame games gId user))"
| step_bet: "step games (snd (placeBet games gId user amount))"
| step_next: "step games (snd (nextRound games gId user))"
| step_reset: "step games (snd (resetGame games gId user))"
| step_timer: "step games (hideResultsTimer games gId)"
| step_cleanup: "step games (cleanupGames games now)"

inductive reachable :: "games \<Rightarrow> bool" where
  reachable_init: "reachable Map.empty"
| reachable_step: "reachable games \<Longrightarrow> step games games' \<Longrightarrow> reachable games'"

section \<open>The settlement in the words of the specification\<close>

text \<open>
  The greatest bid of a ledger, its bidders, and the bids below it. The second-highest bid
  of the specification (the highest amount strictly below the highest bid) and its
  third-highest bid (the highest bid of a player outside the highest bidders) are both the
  greatest of \<open>lowerBids\<close>, when there is one.
\<close>

definition topBid :: "(string \<times> int) list \<Rightarrow> int" where
  "topBid ledger = Max (set (map snd ledger))"

definition topBidders :: "(string \<times> int) list \<Rightarrow> string list" where
  "topBidders ledger = map fst (filter (\<lambda>bid. snd bid = topBid ledger) ledger)"

definition lowerBids :: "(string \<times> int) list \<Rightarrow> int list" where
  "lowerBids ledger = filter (\<lambda>v. v < topBid ledger) (map snd ledger)"

text \<open>A list of bids ranked from the highest amount down.\<close>

definition descending :: "(string \<times> int) list \<Rightarrow> bool" where
  "descending bids = sorted (map (\<lambda>bid. - snd bid) bids)"

text \<open>
  A game whose ledger is closed: it has a player, the players' ids and the ledger's keys are
  each without repetition, and the bidders are exactly the players.
\<close>

definition ledgerClosed :: "game \<Rightarrow> bool" where
  "ledgerClosed game =
     (players game \<noteq> [] \<and> distinct (map pid (players game)) \<and>
      distinct (map fst (bets game)) \<and>
      set (map fst (bets game)) = set (map pid (players game)))"

text \<open>
  What a round gives and takes, from the ledger alone. Every highest bidder has the
  fractional win of the number of highest bidders added to \<open>roundsWon\<close>, with the
  addition of doubles; nobody else's \<open>roundsWon\<close> changes. In All-Pay mode a player pays
  the own recorded bid. In the other modes only the highest bidders pay: the highest bid in
  Standard mode, and in Vickrey mode the greatest bid below the highest; when no bid is
  below the highest, a single highest bidder pays the own bid and tied bidders pay nothing.
\<close>

definition creditedWins :: "(string \<times> int) list \<Rightarrow> player \<Rightarrow> rat" where
  "creditedWins ledger p =
     (if pid p \<in> set (topBidders ledger)
      then addDouble (roundsWon p) (getFractionalWinAmount (length (topBidders ledger)))
      else roundsWon p)"

definition vickreyPrice :: "(string \<times> int) list \<Rightarrow> int" where
  "vickreyPrice ledger =
     (if lowerBids ledger \<noteq> [] then Max (set (lowerBids ledger))
      else if length (topBidders ledger) = 1 then topBid ledger
      else 0)"

definition paymentOf :: "string \<Rightarrow> (string \<times> int) list \<Rightarrow> string \<Rightarrow> int" where
  "paymentOf mode ledger k =
     (if mode = ''all-pay'' then (case map_of ledger k of None \<Rightarrow> 0 | Some b \<Rightarrow> b)
      else if k \<notin> set (topBidders ledger) then 0
      else if mode = ''standard'' then topBid ledger
      else vickreyPrice ledger)"

definition settlePlayer :: "string \<Rightarrow> (string \<times> int) list \<Rightarrow> player \<Rightarrow> player" where
  "settlePlayer mode ledger p =
     p\<lparr>money := money p - paymentOf mode ledger (pid p),
       roundsWon := creditedWins ledger p\<rparr>"

text \<open>
  The second- and third-highest bids in the words of the specification. The second-highest
  bid is the highest amount strictly below the highest bid. The third-highest bid, looked
  at only in a tie for the highest bid, is the highest bid of the players outside the tie.
\<close>

definition secondHighest :: "(string \<times> int) list \<Rightarrow> int option" where
  "secondHighest ledger =
     (if lowerBids ledger = [] then None else Some (Max (set (lowerBids ledger))))"

definition thirdHighest :: "(string \<times> int) list \<Rightarrow> int option" where
  "thirdHighest ledger =
     (let others = filter (\<lambda>bid. fst bid \<notin> set (topBidders ledger)) ledger
      in if length (topBidders ledger) > 1 \<and> others \<noteq> []
         then Some (Max (set (map snd others))) else None)"

text \<open>
  The total of a list of doubles as the program's arithmetic gives it: added from the left,
  starting at 0, every sum rounded to a double.
\<close>

definition sumDoubles :: "rat list \<Rightarrow> rat" where
  "sumDoubles xs = foldl addDouble 0 xs"

text \<open>The body of \<open>creditWinner\<close>, as a function on the winner.\<close>

definition charge :: "int option \<Rightarrow> rat \<Rightarrow> player \<Rightarrow> player" where
  "charge payment credit w =
     (case payment of
        None \<Rightarrow> w\<lparr>roundsWon := addDouble (roundsWon w) credit\<rparr>
      | Some pay \<Rightarrow> w\<lparr>money := money w - pay, roundsWon := addDouble (roundsWon w) credit\<rparr>)"

section \<open>The conditions of the routes\<close>

text \<open>
  The caller of a host-only route is the host of an existing game: the game is in the
  registry, the session's user belongs to it, and the player of the session is found in it
  and is its host.
\<close>

definition hostCalls :: "games \<Rightarrow> string \<Rightarrow> sessionUser option \<Rightarrow> game \<Rightarrow> bool" where
  "hostCalls games gId user game =
     (games gId = Some game \<and>
      (\<exists>u caller. user = Some u \<and> gameId u = gId \<and>
         find (\<lambda>p. pid p = playerId u) (players game) = Some caller \<and> host caller))"

text \<open>
  The conditions under which a bid is accepted: the game exists and is in its betting
  phase, the session's user belongs to it and its player is found in it, that player has no
  bid in the ledger yet, and the amount is a number between 0 and the player's money.
\<close>

definition betAccepted ::
  "games \<Rightarrow> string \<Rightarrow> sessionUser option \<Rightarrow> int option \<Rightarrow> game \<Rightarrow> player \<Rightarrow> int \<Rightarrow> bool" where
  "betAccepted games gId user amount game player a =
     (games gId = Some game \<and>
      (\<exists>u. user = Some u \<and> gameId u = gId \<and>
         find (\<lambda>p. pid p = playerId u) (players game) = Some player) \<and>
      status game = Betting \<and>
      map_of (bets game) (pid player) = None \<and>
      amount = Some a \<and> 0 \<le> a \<and> a \<le> money player)"

section \<open>Invariants of the reachable registries\<close>

text \<open>
  What holds of every game of every reachable registry: it has a player; the ids of its
  players and the keys of its ledger are each without repetition; every bidder of the ledger
  is a player; no player's money is negative; while the game is in its betting phase, every
  recorded bid is between 0 and the bidder's money; \<open>totalRounds\<close> is the value of the
  total-round policy for the number of players; \<open>roundsToWin\<close> is 3; and a game that
  has started has at least two players.
\<close>

definition gameInv :: "game \<Rightarrow> bool" where
  "gameInv game =
     (players game \<noteq> [] \<and> distinct (map pid (players game)) \<and>
      distinct (map fst (bets game)) \<and>
      set (map fst (bets game)) \<subseteq> set (map pid (players game)) \<and>
      (\<forall>p \<in> set (players game). 0 \<le> money p) \<and>
      (status game = Betting \<longrightarrow>
         (\<forall>p \<in> set (players game). \<forall>b. map_of (bets game) (pid p) = Some b \<longrightarrow>
            0 \<le> b \<and> b \<le> money p)) \<and>
      totalRounds game = getTotalRoundsForPlayerCount (length (players game)) \<and>
      roundsToWin game = 3 \<and>
      (status game \<noteq> Waiting \<longrightarrow> 2 \<le> length (players game)))"

definition registryInv :: "games \<Rightarrow> bool" where
  "registryInv games = (\<forall>gId game. games gId = Some game \<longrightarrow> gameInv game)"

text \<open>
  What one step does to a game that satisfies the invariant: it keeps the invariant, and
  once the game has started it changes neither \<open>totalRounds\<close> nor the number of players.
  A step leaves the registry as it is or replaces one game by such a successor.
\<close>

definition gameStep :: "game \<Rightarrow> game \<Rightarrow> bool" where
  "gameStep game game' =
     (gameInv game \<longrightarrow>
        gameInv game' \<and>
        (status game \<noteq> Waiting \<longrightarrow>
           totalRounds game' = totalRounds game \<and>
           length (players game') = length (players game)))"

definition touches :: "games \<Rightarrow> games \<Rightarrow> bool" where
  "touches games games' =
     (games' = games \<or>
      (\<exists>gId game game'. games gId = Some game \<and> games' = games(gId \<mapsto> game') \<and>
         gameStep game game'))"

section \<open>Example games and registries\<close>

definition examplePlayer :: "string \<Rightarrow> int \<Rightarrow> rat \<Rightarrow> bool \<Rightarrow> player" where
  "examplePlayer i m w h = \<lparr>pid = i, name = i, money = m, roundsWon = w, host = h\<rparr>"

text \<open>A game in round \<open>r\<close> of five, in its betting phase.\<close>

definition exampleGame :: "string \<Rightarrow> int \<Rightarrow> player list \<Rightarrow> (string \<times> int) list \<Rightarrow> game" where
  "exampleGame mode r ps bs =
     \<lparr>gid = ''GAME01'', createdAt = 1, gameMode = mode, players = ps, currentRound = r,
      totalRounds = 5, roundsToWin = 3, status = Betting, bets = bs, roundWinners = None,
      overallWinner = None, lastRoundBets = [], showRoundResults = False,
      secondHighestBid = None, thirdHighestBid = None, actualPayments = []\<rparr>"

text \<open>Two players with the same number of wins and the same money, after the last round.\<close>

definition tiedGame :: game where
  "tiedGame =
     exampleGame ''standard'' 5
       [examplePlayer ''ann'' 40 2 True, examplePlayer ''bob'' 40 2 False] []"

text \<open>A player with three wins in round 2 of 5, in All-Pay and in Standard mode.\<close>

definition threeWinsAllPay :: game where
  "threeWinsAllPay =
     exampleGame ''all-pay'' 2
       [examplePlayer ''ann'' 40 3 True, examplePlayer ''bob'' 70 0 False] []"

definition threeWinsStandard :: game where
  "threeWinsStandard =
     exampleGame ''standard'' 2
       [examplePlayer ''ann'' 40 3 True, examplePlayer ''bob'' 70 0 False] []"

text \<open>The game that \<^verbatim>\<open>completeRound\<close> leaves, whether it returns or throws.\<close>

definition settled :: "game \<Rightarrow> game" where
  "settled game = (case completeRound game of Inr game' \<Rightarrow> game' | Inl (e, game') \<Rightarrow> game')"

text \<open>Three players with 100 each and their bids of round 1, and two players likewise.\<close>

definition threePlayers :: "string \<Rightarrow> int \<Rightarrow> int \<Rightarrow> int \<Rightarrow> game" where
  "threePlayers mode a b c =
     exampleGame mode 1
       [examplePlayer ''ann'' 100 0 True, examplePlayer ''bob'' 100 0 False,
        examplePlayer ''cy'' 100 0 False]
       [(''ann'', a), (''bob'', b), (''cy'', c)]"

definition twoPlayers :: "string \<Rightarrow> int \<Rightarrow> int \<Rightarrow> game" where
  "twoPlayers mode a b =
     exampleGame mode 1
       [examplePlayer ''ann'' 100 0 True, examplePlayer ''bob'' 100 0 False]
       [(''ann'', a), (''bob'', b)]"

text \<open>
  A registry with one All-Pay game of three players after its second round, and the
  sessions of its host and of another player.
\<close>

definition playedGame :: game where
  "playedGame =
     (exampleGame ''all-pay'' 2
        [examplePlayer ''ann'' 50 1 True, examplePlayer ''bob'' 70 0 False,
         examplePlayer ''cy'' 90 0 False] [])\<lparr>totalRounds := 7, status := RoundComplete\<rparr>"

definition playedRegistry :: games where
  "playedRegistry = [''GAME01'' \<mapsto> playedGame]"

definition annSession :: "sessionUser option" where
  "annSession = Some \<lparr>gameId = ''GAME01'', playerId = ''ann'', userName = ''ann''\<rparr>"

definition bobSession :: "sessionUser option" where
  "bobSession = Some \<lparr>gameId = ''GAME01'', playerId = ''bob'', userName = ''bob''\<rparr>"

text \<open>A registry with one Vickrey game of two players in the betting phase of round 1.\<close>

definition bettingGame :: game where
  "bettingGame =
     exampleGame ''vickrey'' 1
       [examplePlayer ''ann'' 100 0 True, examplePlayer ''bob'' 100 0 False] []"

definition bettingRegistry :: games where
  "bettingRegistry = [''GAME01'' \<mapsto> bettingGame]"

text \<open>
  A run of the server: a host creates an All-Pay game, two players join, the host starts
  the game, and the three bid 50, 30 and 10 in the first round.
\<close>

definition cySession :: "sessionUser option" where
  "cySession = Some \<lparr>gameId = ''GAME01'', playerId = ''cy'', userName = ''cy''\<rparr>"

definition lobby1 :: games where
  "lobby1 = snd (createGame Map.empty ''GAME01'' ''ann'' 1 (Some ''ann'') None)"

definition lobby2 :: games where
  "lobby2 = snd (joinGame lobby1 ''bob'' (Some ''game01'') (Some ''bob''))"

definition lobby3 :: games where
  "lobby3 = snd (joinGame lobby2 ''cy'' (Some ''game01'') (Some ''cy''))"

definition started :: games where
  "started = snd (startGame lobby3 ''GAME01'' annSession)"

definition firstBid :: games where
  "firstBid = snd (placeBet started ''GAME01'' annSession (Some 50))"

definition firstRound :: games where
  "firstRound =
     snd (placeBet (snd (placeBet firstBid ''GAME01'' bobSession (Some 30)))
       ''GAME01'' cySession (Some 10))"

text \<open>
  The same game when the three bid 10 each in the first round: the registry after the
  third bid, and the game as the third bid closes its ledger.
\<close>

definition tieRound :: games where
  "tieRound =
     snd (placeBet
       (snd (placeBet (snd (placeBet started ''GAME01'' annSession (Some 10)))
          ''GAME01'' bobSession (Some 10)))
       ''GAME01'' cySession (Some 10))"

definition tieGame :: game where
  "tieGame = (threePlayers ''all-pay'' 10 10 10)\<lparr>totalRounds := 7\<rparr>"

section \<open>Properties\<close>

subsection \<open>The overall winner\<close>

lemma mathMax_Max: "xs \<noteq> [] \<Longrightarrow> mathMax xs = Some (Max (set xs))"
  by (cases xs) (simp_all add: mathMax_def Max.set_eq_fold del: set_simps)

text \<open>
  The money tie-break keeps the accumulator only when it is strictly richer, so among
  the richest it returns the last one.
\<close>

lemma foldl_richer:
  "foldl richer x ys \<in> set (x # ys) \<and>
   (\<forall>p \<in> set (x # ys). money p \<le> money (foldl richer x ys)) \<and>
   last (filter (\<lambda>p. money p = money (foldl richer x ys)) (x # ys)) = foldl richer x ys"
proof (induction ys rule: rev_induct)
  case Nil
  show ?case by simp
next
  case (snoc y ys)
  let ?r = "foldl richer x ys"
  from snoc have r_in: "?r \<in> set (x # ys)"
    and r_max: "\<forall>p \<in> set (x # ys). money p \<le> money ?r"
    and r_last: "last (filter (\<lambda>p. money p = money ?r) (x # ys)) = ?r"
    by blast+
  show ?case
  proof (cases "money ?r > money y")
    case True
    then have eq: "foldl richer x (ys @ [y]) = ?r" by (simp add: richer_def)
    have "filter (\<lambda>p. money p = money ?r) (x # ys @ [y]) = filter (\<lambda>p. money p = money ?r) (x # ys)"
      using True by simp
    with r_in r_max r_last True show ?thesis unfolding eq by auto
  next
    case False
    then have eq: "foldl richer x (ys @ [y]) = y" by (simp add: richer_def)
    have "\<forall>p \<in> set (x # ys @ [y]). money p \<le> money y"
      using r_max False by fastforce
    then show ?thesis unfolding eq by simp
  qed
qed

lemma reduce_richer:
  assumes "xs \<noteq> []"
  shows "\<exists>w. reduce richer xs = Some w \<and> w \<in> set xs \<and> (\<forall>p \<in> set xs. money p \<le> money w) \<and>
         last (filter (\<lambda>p. money p = money w) xs) = w"
proof -
  from assms obtain x ys where xs: "xs = x # ys" by (cases xs) auto
  show ?thesis unfolding xs reduce_def using foldl_richer [of x ys] by simp
qed

text \<open>
  C1, as the code has it. For a game with at least one player the resolver returns
  normally and sets \<open>overallWinner\<close> to one of the players, never to nothing. In All-Pay
  mode, when some player has \<open>roundsWon \<ge> roundsToWin\<close>, the winner is the first such
  player in join order. Otherwise, in every mode, the winner has the greatest
  \<open>roundsWon\<close>, has the greatest money among the players with that many wins, and, when
  several of those have the same money, is the last of them in join order.
\<close>

theorem determineOverallWinner_picks:
  assumes ne: "players g \<noteq> []"
  shows "\<exists>w. determineOverallWinner g = Inr (g\<lparr>overallWinner := Some w\<rparr>) \<and> w \<in> set (players g) \<and>
     (if gameMode g = ''all-pay'' \<and> (\<exists>p \<in> set (players g). of_int (roundsToWin g) \<le> roundsWon p)
      then find (\<lambda>p. of_int (roundsToWin g) \<le> roundsWon p) (players g) = Some w
      else (\<forall>p \<in> set (players g). roundsWon p \<le> roundsWon w) \<and>
           (\<forall>p \<in> set (players g). roundsWon p = roundsWon w \<longrightarrow> money p \<le> money w) \<and>
           last (filter (\<lambda>p. roundsWon p = roundsWon w \<and> money p = money w) (players g)) = w)"
proof (cases "gameMode g = ''all-pay'' \<and> (\<exists>p \<in> set (players g). of_int (roundsToWin g) \<le> roundsWon p)")
  case True
  then obtain w where w: "find (\<lambda>p. of_int (roundsToWin g) \<le> roundsWon p) (players g) = Some w"
    by (cases "find (\<lambda>p. of_int (roundsToWin g) \<le> roundsWon p) (players g)")
       (auto simp: find_None_iff)
  then have "w \<in> set (players g)" by (auto simp: find_Some_iff)
  with True w show ?thesis by (auto simp: determineOverallWinner_def)
next
  case False
  define m where "m = Max (set (map roundsWon (players g)))"
  define tied where "tied = filter (\<lambda>p. roundsWon p = m) (players g)"
  have nofind: "(if gameMode g = ''all-pay''
            then find (\<lambda>p. roundsWon p \<ge> of_int (roundsToWin g)) (players g)
            else None) = None"
    using False by (auto simp: find_None_iff)
  have mm: "mathMax (map roundsWon (players g)) = Some m"
    using ne by (simp add: mathMax_Max m_def del: set_map)
  have m_in: "m \<in> set (map roundsWon (players g))"
    unfolding m_def using ne by (intro Max_in) auto
  have m_ge: "\<forall>p \<in> set (players g). roundsWon p \<le> m"
    unfolding m_def by (auto intro: Max_ge)
  from m_in have tied_ne: "tied \<noteq> []"
    by (auto simp: tied_def filter_empty_conv)
  have tied_sub: "set tied \<subseteq> set (players g)" "\<forall>p \<in> set tied. roundsWon p = m"
    by (auto simp: tied_def)
  have filt: "\<And>k. filter (\<lambda>p. roundsWon p = m \<and> money p = k) (players g) = filter (\<lambda>p. money p = k) tied"
    by (simp add: tied_def conj_commute)
  have dow: "determineOverallWinner g =
       (if length tied = 1 then Inr (g\<lparr>overallWinner := Some (hd tied)\<rparr>)
        else (case reduce richer tied of None \<Rightarrow> Inl (TypeError, g)
              | Some w \<Rightarrow> Inr (g\<lparr>overallWinner := Some w\<rparr>)))"
    unfolding determineOverallWinner_def nofind mm tied_def by (simp add: eq_commute)
  have final: "?thesis"
    if w: "determineOverallWinner g = Inr (g\<lparr>overallWinner := Some w\<rparr>)" "w \<in> set tied"
      "\<forall>p \<in> set tied. money p \<le> money w" "last (filter (\<lambda>p. money p = money w) tied) = w" for w
  proof -
    from w(2) tied_sub have wm: "w \<in> set (players g)" "roundsWon w = m" by auto
    have a: "\<forall>p \<in> set (players g). roundsWon p \<le> roundsWon w" using m_ge wm by simp
    have b: "\<forall>p \<in> set (players g). roundsWon p = roundsWon w \<longrightarrow> money p \<le> money w"
      using w(3) wm(2) by (auto simp: tied_def)
    have c: "last (filter (\<lambda>p. roundsWon p = roundsWon w \<and> money p = money w) (players g)) = w"
      using w(4) by (simp add: wm(2) filt)
    from False w(1) wm(1) a b c show ?thesis
      by (intro exI [of _ w]) (simp only: if_False simp_thms)
  qed
  show ?thesis
  proof (cases "length tied = 1")
    case True
    then obtain w where tw: "tied = [w]" by (cases tied) auto
    show ?thesis
      by (rule final [of w]) (use tw dow in simp_all)
  next
    case len: False
    from reduce_richer [OF tied_ne] obtain w where w: "reduce richer tied = Some w" "w \<in> set tied"
      "\<forall>p \<in> set tied. money p \<le> money w" "last (filter (\<lambda>p. money p = money w) tied) = w"
      by blast
    show ?thesis
      by (rule final [of w]) (use w dow len in simp_all)
  qed
qed

text \<open>
  The theorem at \<open>tiedGame\<close>: a winner is set, and it is a player with two wins and 40 of
  money.
\<close>

theorem determineOverallWinner_picks_witness:
  "players tiedGame \<noteq> [] \<and>
   (\<exists>w. determineOverallWinner tiedGame = Inr (tiedGame\<lparr>overallWinner := Some w\<rparr>) \<and>
        roundsWon w = 2 \<and> money w = 40)"
proof -
  have ne: "players tiedGame \<noteq> []"
    by (simp add: tiedGame_def exampleGame_def)
  from determineOverallWinner_picks [OF ne] obtain w where
    w: "determineOverallWinner tiedGame = Inr (tiedGame\<lparr>overallWinner := Some w\<rparr>)"
       "w \<in> set (players tiedGame)"
    by blast
  from w(2) have "roundsWon w = 2 \<and> money w = 40"
    by (auto simp: tiedGame_def exampleGame_def examplePlayer_def)
  with ne w(1) show ?thesis by blast
qed

text \<open>
  C1 as the specification states it picks, among the players tied on wins and on money,
  the first in join order. In \<open>tiedGame\<close> the two players tie on both and differ, and the
  resolver picks the second.
\<close>

theorem determineOverallWinner_first_counterexample:
  "length (players tiedGame) = 2 \<and>
   roundsWon (players tiedGame ! 0) = roundsWon (players tiedGame ! 1) \<and>
   money (players tiedGame ! 0) = money (players tiedGame ! 1) \<and>
   players tiedGame ! 0 \<noteq> players tiedGame ! 1 \<and>
   determineOverallWinner tiedGame = Inr (tiedGame\<lparr>overallWinner := Some (players tiedGame ! 1)\<rparr>)"
  by (simp add: tiedGame_def exampleGame_def examplePlayer_def determineOverallWinner_def
      mathMax_def reduce_def richer_def)

subsection \<open>Ranking the bids\<close>

lemma set_objectEntries: "set (objectEntries obj) = set obj"
  by (auto simp: objectEntries_def)

lemma length_objectEntries: "length (objectEntries obj) = length obj"
  by (simp add: objectEntries_def sum_length_filter_compl)

lemma distinct_objectEntries: "distinct obj \<Longrightarrow> distinct (objectEntries obj)"
  by (auto simp: objectEntries_def)

lemma set_rankedBids: "set (rankedBids obj) = set obj"
  by (simp add: rankedBids_def set_objectEntries)

lemma length_rankedBids: "length (rankedBids obj) = length obj"
  by (simp add: rankedBids_def length_objectEntries)

lemma distinct_keys_rankedBids:
  assumes "distinct (map fst obj)"
  shows "distinct (map fst (rankedBids obj))"
proof -
  from assms have "distinct obj" "inj_on fst (set obj)"
    by (simp_all add: distinct_map)
  then have "distinct (rankedBids obj)"
    by (simp add: rankedBids_def distinct_objectEntries)
  with \<open>inj_on fst (set obj)\<close> show ?thesis
    by (simp add: distinct_map set_rankedBids)
qed

lemma sorted_rankedBids: "sorted (map (\<lambda>bid. - snd bid) (rankedBids obj))"
  by (simp add: rankedBids_def)

lemma descending_Cons: "descending (b # bids) = ((\<forall>c \<in> set bids. snd c \<le> snd b) \<and> descending bids)"
  by (auto simp: descending_def)

lemma descending_hd: "descending bids \<Longrightarrow> c \<in> set bids \<Longrightarrow> snd c \<le> snd (hd bids)"
  by (cases bids) (auto simp: descending_Cons)

lemma descending_find:
  "descending bids \<Longrightarrow> find (\<lambda>bid. snd bid < t) bids = Some b \<Longrightarrow> c \<in> set bids \<Longrightarrow> snd c < t \<Longrightarrow> snd c \<le> snd b"
  by (induction bids) (auto simp: descending_Cons split: if_splits)

lemma find_hd_filter: "find P xs = (case filter P xs of [] \<Rightarrow> None | x # _ \<Rightarrow> Some x)"
  by (induction xs) auto

lemma topBid_ge: "b \<in> set obj \<Longrightarrow> snd b \<le> topBid obj"
  by (auto simp: topBid_def intro: Max_ge)

lemma hd_rankedBids:
  assumes "obj \<noteq> []"
  shows "snd (hd (rankedBids obj)) = topBid obj"
proof -
  let ?bids = "rankedBids obj"
  from assms have ne: "?bids \<noteq> []"
    using length_rankedBids [of obj] by auto
  then have "hd ?bids \<in> set obj" using set_rankedBids [of obj] hd_in_set by blast
  moreover have "\<forall>c \<in> set obj. snd c \<le> snd (hd ?bids)"
    using descending_hd [of ?bids] sorted_rankedBids [of obj]
    by (simp add: descending_def set_rankedBids)
  ultimately show ?thesis
    unfolding topBid_def by (intro Max_eqI [symmetric]) auto
qed

lemma highestBidders_rankedBids:
  assumes "obj \<noteq> []" "distinct (map fst obj)"
  shows "set (highestBiddersOf (rankedBids obj)) = set (topBidders obj)"
    and "distinct (highestBiddersOf (rankedBids obj))"
    and "length (highestBiddersOf (rankedBids obj)) = length (topBidders obj)"
    and "highestBiddersOf (rankedBids obj) \<noteq> []"
proof -
  let ?bids = "rankedBids obj"
  have hb: "highestBiddersOf ?bids = map fst (filter (\<lambda>bid. snd bid = topBid obj) ?bids)"
    by (simp add: highestBiddersOf_def hd_rankedBids assms(1))
  show s: "set (highestBiddersOf ?bids) = set (topBidders obj)"
    by (simp add: hb topBidders_def set_rankedBids)
  show d: "distinct (highestBiddersOf ?bids)"
    unfolding hb using distinct_keys_rankedBids [OF assms(2)]
    by (simp add: distinct_map_filter)
  have "distinct (topBidders obj)"
    unfolding topBidders_def using assms(2) by (simp add: distinct_map_filter)
  with s d show "length (highestBiddersOf ?bids) = length (topBidders obj)"
    by (metis distinct_card)
  from assms(1) have "?bids \<noteq> []" using length_rankedBids [of obj] by auto
  then have "hd ?bids \<in> set ?bids" by simp
  then have "fst (hd ?bids) \<in> set (highestBiddersOf ?bids)"
    by (auto simp: highestBiddersOf_def)
  then show "highestBiddersOf ?bids \<noteq> []" by auto
qed

lemma lowerBids_empty: "(lowerBids obj = []) = (\<forall>b \<in> set obj. \<not> snd b < topBid obj)"
  by (auto simp: lowerBids_def filter_empty_conv)

lemma find_below_rankedBids:
  assumes "obj \<noteq> []"
  shows "map_option snd (find (\<lambda>bid. snd bid < topBid obj) (rankedBids obj)) =
         (if lowerBids obj = [] then None else Some (Max (set (lowerBids obj))))"
proof (cases "find (\<lambda>bid. snd bid < topBid obj) (rankedBids obj)")
  case None
  then have "\<forall>b \<in> set (rankedBids obj). \<not> snd b < topBid obj"
    unfolding find_None_iff by blast
  then have "lowerBids obj = []"
    unfolding lowerBids_empty set_rankedBids .
  with None show ?thesis by simp
next
  case (Some b)
  then have "b \<in> set (rankedBids obj)" "snd b < topBid obj"
    by (auto simp: find_Some_iff)
  then have b: "b \<in> set obj" "snd b < topBid obj"
    by (simp_all add: set_rankedBids)
  then have ne: "lowerBids obj \<noteq> []" by (auto simp: lowerBids_empty)
  have "\<forall>v \<in> set (lowerBids obj). v \<le> snd b"
    using descending_find [OF _ Some] sorted_rankedBids [of obj]
    by (auto simp: descending_def set_rankedBids lowerBids_def)
  moreover have "snd b \<in> set (lowerBids obj)" using b by (auto simp: lowerBids_def)
  ultimately have "Max (set (lowerBids obj)) = snd b" by (intro Max_eqI) auto
  with Some ne show ?thesis by simp
qed

lemma secondHighest_rankedBids:
  assumes "obj \<noteq> []"
  shows "secondHighestOf (rankedBids obj) =
         (if lowerBids obj = [] then None else Some (Max (set (lowerBids obj))))"
proof (cases "length (rankedBids obj) > 1")
  case True
  then show ?thesis
    by (simp add: secondHighestOf_def hd_rankedBids assms find_below_rankedBids)
next
  case False
  with assms have "length obj = 1" using length_rankedBids [of obj] by (cases obj) auto
  then obtain b where obj: "obj = [b]" by (cases obj) auto
  have "lowerBids obj = []" unfolding obj by (simp add: lowerBids_def topBid_def)
  with False show ?thesis by (simp add: secondHighestOf_def)
qed

lemma thirdHighest_rankedBids:
  assumes "obj \<noteq> []" "distinct (map fst obj)" "thirdHighestOf (rankedBids obj) = Some t"
  shows "lowerBids obj \<noteq> [] \<and> t = Max (set (lowerBids obj))"
proof -
  let ?bids = "rankedBids obj"
  let ?hb = "highestBiddersOf ?bids"
  have inj: "inj_on fst (set obj)" using assms(2) by (simp add: distinct_map)
  have mem: "(fst b \<notin> set ?hb) = (snd b < topBid obj)" if "b \<in> set ?bids" for b
  proof -
    from that have b: "b \<in> set obj" by (simp add: set_rankedBids)
    have "(fst b \<in> set ?hb) = (snd b = topBid obj)"
    proof
      assume "fst b \<in> set ?hb"
      then obtain c where c: "c \<in> set obj" "snd c = topBid obj" "fst c = fst b"
        by (auto simp: highestBidders_rankedBids(1) [OF assms(1,2)] topBidders_def)
      from inj_onD [OF inj c(3) c(1) b] have "c = b" .
      with c show "snd b = topBid obj" by simp
    next
      assume "snd b = topBid obj"
      with b show "fst b \<in> set ?hb"
        by (auto simp: highestBidders_rankedBids(1) [OF assms(1,2)] topBidders_def)
    qed
    with topBid_ge [OF b] show ?thesis by auto
  qed
  then have filt: "filter (\<lambda>bid. fst bid \<notin> set ?hb) ?bids = filter (\<lambda>bid. snd bid < topBid obj) ?bids"
    by (intro filter_cong) auto
  have "thirdHighestOf ?bids =
      (if length ?bids > 2 \<and> length ?hb > 1 then
         (if filter (\<lambda>bid. snd bid < topBid obj) ?bids \<noteq> []
          then Some (snd (hd (filter (\<lambda>bid. snd bid < topBid obj) ?bids))) else None)
       else None)"
    by (simp add: thirdHighestOf_def Let_def filt)
  with assms(3) have ne: "filter (\<lambda>bid. snd bid < topBid obj) ?bids \<noteq> []"
    and t: "t = snd (hd (filter (\<lambda>bid. snd bid < topBid obj) ?bids))"
    by (simp_all split: if_splits)
  then have "map_option snd (find (\<lambda>bid. snd bid < topBid obj) ?bids) = Some t"
    by (cases "filter (\<lambda>bid. snd bid < topBid obj) ?bids") (auto simp: find_hd_filter)
  then show ?thesis
    by (simp add: find_below_rankedBids [OF assms(1)] split: if_splits)
qed

subsection \<open>Settling a closed ledger\<close>

lemma pid_charge: "pid (charge payment credit w) = pid w"
  by (simp add: charge_def split: option.splits)

lemma updateFirst_map:
  "distinct (map pid ps) \<Longrightarrow>
   updateFirst (\<lambda>p. pid p = w) f ps = map (\<lambda>p. if pid p = w then f p else p) ps"
proof (induction ps)
  case Nil
  show ?case by simp
next
  case (Cons p ps)
  show ?case
  proof (cases "pid p = w")
    case True
    with Cons.prems have "\<forall>q \<in> set ps. pid q \<noteq> w" by (auto simp: image_iff)
    then have "map (\<lambda>p. if pid p = w then f p else p) ps = ps"
      by (intro map_idI) simp
    with True show ?thesis by simp
  next
    case False
    with Cons show ?thesis by simp
  qed
qed

lemma creditWinner_map:
  assumes "distinct (map pid (players g))" "w \<in> pid ` set (players g)"
  shows "\<exists>ap. creditWinner payment credit w g =
           Inr (g\<lparr>players := map (\<lambda>p. if pid p = w then charge payment credit p else p) (players g),
                  actualPayments := ap\<rparr>)"
proof -
  from assms(2) obtain winner where f: "find (\<lambda>p. pid p = w) (players g) = Some winner"
    by (cases "find (\<lambda>p. pid p = w) (players g)") (auto simp: find_None_iff)
  show ?thesis
  proof (cases payment)
    case None
    have "creditWinner payment credit w g =
        Inr (g\<lparr>players := map (\<lambda>p. if pid p = w then charge payment credit p else p) (players g),
               actualPayments := actualPayments g\<rparr>)"
      unfolding creditWinner_def f None
      by (simp add: updateFirst_map [OF assms(1)] charge_def)
    then show ?thesis by blast
  next
    case (Some pay)
    have "creditWinner payment credit w g =
        Inr (g\<lparr>players := map (\<lambda>p. if pid p = w then charge payment credit p else p) (players g),
               actualPayments := AList.update (pid winner) pay (actualPayments g)\<rparr>)"
      unfolding creditWinner_def f Some
      by (simp add: updateFirst_map [OF assms(1)] charge_def)
    then show ?thesis by blast
  qed
qed

lemma forEachWinner_map:
  assumes "distinct ws" "set ws \<subseteq> pid ` set (players g)" "distinct (map pid (players g))"
  shows "\<exists>ap. forEachWinner (creditWinner payment credit) ws g =
           Inr (g\<lparr>players := map (\<lambda>p. if pid p \<in> set ws then charge payment credit p else p) (players g),
                  actualPayments := ap\<rparr>)"
  using assms
proof (induction ws arbitrary: g)
  case Nil
  have "forEachWinner (creditWinner payment credit) [] g =
      Inr (g\<lparr>players := map (\<lambda>p. if pid p \<in> set [] then charge payment credit p else p) (players g),
             actualPayments := actualPayments g\<rparr>)"
    by simp
  then show ?case by blast
next
  case (Cons w ws)
  let ?f = "\<lambda>p. if pid p = w then charge payment credit p else p"
  from Cons.prems creditWinner_map [of g w payment credit]
  obtain ap where step: "creditWinner payment credit w g =
      Inr (g\<lparr>players := map ?f (players g), actualPayments := ap\<rparr>)"
    by auto
  let ?g1 = "g\<lparr>players := map ?f (players g), actualPayments := ap\<rparr>"
  have pids: "map pid (players ?g1) = map pid (players g)"
    by (simp add: pid_charge)
  have "pid ` set (players ?g1) = set (map pid (players ?g1))"
    by (simp only: set_map)
  also have "\<dots> = pid ` set (players g)"
    by (simp only: pids set_map)
  finally have img: "pid ` set (players ?g1) = pid ` set (players g)" .
  have pre: "distinct ws" "set ws \<subseteq> pid ` set (players ?g1)"
    "distinct (map pid (players ?g1))"
    using Cons.prems by (simp_all only: pids img distinct.simps set_simps insert_subset)
  from Cons.IH [OF pre] obtain ap' where rest:
    "forEachWinner (creditWinner payment credit) ws ?g1 =
       Inr (?g1\<lparr>players := map (\<lambda>p. if pid p \<in> set ws then charge payment credit p else p) (players ?g1),
                 actualPayments := ap'\<rparr>)"
    by blast
  have comp: "map (\<lambda>p. if pid p \<in> set ws then charge payment credit p else p) (map ?f (players g)) =
        map (\<lambda>p. if pid p \<in> set (w # ws) then charge payment credit p else p) (players g)"
    using Cons.prems(1) by (auto simp: pid_charge)
  have "forEachWinner (creditWinner payment credit) (w # ws) g =
       Inr (g\<lparr>players := map (\<lambda>p. if pid p \<in> set (w # ws) then charge payment credit p else p) (players g),
              actualPayments := ap'\<rparr>)"
    by (simp add: step rest comp [unfolded map_map] del: set_simps)
  then show ?case by blast
qed

lemma awardWinners_map:
  assumes "hb \<noteq> []" "distinct hb" "set hb \<subseteq> pid ` set (players g)"
    "distinct (map pid (players g))"
  shows "\<exists>ap. awardWinners sp tp (getFractionalWinAmount (length hb)) hb g =
           Inr (g\<lparr>players :=
                   map (\<lambda>p. if pid p \<in> set hb
                             then charge (if length hb = 1 then sp else tp)
                                    (getFractionalWinAmount (length hb)) p
                             else p) (players g),
                  actualPayments := ap\<rparr>)"
proof (cases "length hb = 1")
  case True
  then obtain w where hb: "hb = [w]" by (cases hb) auto
  with assms(3) have w: "w \<in> pid ` set (players g)" by simp
  have frac: "getFractionalWinAmount (length hb) = 1"
    using True by (simp add: getFractionalWinAmount_def)
  have "awardWinners sp tp 1 hb g = creditWinner sp 1 w g"
    by (simp add: awardWinners_def hb)
  with creditWinner_map [OF assms(4) w, of sp 1] show ?thesis
    unfolding frac by (simp add: hb)
next
  case False
  with assms(1) have "length hb > 1" by (cases hb) auto
  with False forEachWinner_map [OF assms(2,3,4), of tp "getFractionalWinAmount (length hb)"]
  show ?thesis by (simp add: awardWinners_def)
qed

lemma determineOverallWinner_returns:
  assumes "players g \<noteq> []"
  shows "\<exists>w. determineOverallWinner g = Inr (g\<lparr>overallWinner := Some w\<rparr>)"
proof -
  let ?wins = "map roundsWon (players g)"
  let ?tied = "filter (\<lambda>p. Some (roundsWon p) = mathMax ?wins) (players g)"
  from assms have "Max (set ?wins) \<in> set ?wins" by (intro Max_in) auto
  then obtain p where "p \<in> set (players g)" "roundsWon p = Max (set ?wins)" by auto
  with assms have "?tied \<noteq> []"
    by (auto simp: mathMax_Max filter_empty_conv simp del: set_map)
  from reduce_richer [OF this] obtain w where "reduce richer ?tied = Some w" by blast
  then show ?thesis
    by (auto simp: determineOverallWinner_def Let_def split: option.splits)
qed

lemma finishRound_result:
  assumes "players g \<noteq> []"
  shows "\<exists>st ow. finishRound g = Inr (g\<lparr>status := st, overallWinner := ow\<rparr>) \<and>
           st = (if shouldEndGame g then GameComplete else status g)"
proof (cases "shouldEndGame g")
  case True
  from assms have "players (g\<lparr>status := GameComplete\<rparr>) \<noteq> []" by simp
  from determineOverallWinner_returns [OF this] obtain w where
    "determineOverallWinner (g\<lparr>status := GameComplete\<rparr>) =
       Inr (g\<lparr>status := GameComplete, overallWinner := Some w\<rparr>)"
    by auto
  with True show ?thesis by (auto simp: finishRound_def)
next
  case False
  then have "finishRound g = Inr (g\<lparr>status := status g, overallWinner := overallWinner g\<rparr>)"
    by (simp add: finishRound_def)
  with False show ?thesis
    by (intro exI [of _ "status g"] exI [of _ "overallWinner g"]) simp
qed

lemma settle_players:
  assumes closed: "ledgerClosed g"
  shows "\<exists>ap. settle (rankedBids (bets g)) g =
           Inr (g\<lparr>players := map (settlePlayer (gameMode g) (bets g)) (players g),
                  actualPayments := ap\<rparr>)"
proof -
  let ?bids = "rankedBids (bets g)"
  let ?hb = "highestBiddersOf ?bids"
  let ?frac = "getFractionalWinAmount (length ?hb)"
  from closed have ne: "bets g \<noteq> []" and dk: "distinct (map fst (bets g))"
    and dp: "distinct (map pid (players g))"
    and keys: "set (map fst (bets g)) = set (map pid (players g))"
    by (auto simp: ledgerClosed_def)
  note hbs = highestBidders_rankedBids [OF ne dk]
  have top: "snd (hd ?bids) = topBid (bets g)" by (rule hd_rankedBids [OF ne])
  have sub: "set ?hb \<subseteq> pid ` set (players g)"
    using keys by (auto simp: hbs(1) topBidders_def)
  have second: "secondHighestOf ?bids =
      (if lowerBids (bets g) = [] then None else Some (Max (set (lowerBids (bets g)))))"
    by (rule secondHighest_rankedBids [OF ne])
  have third: "lowerBids (bets g) \<noteq> [] \<and> t = Max (set (lowerBids (bets g)))"
    if "thirdHighestOf ?bids = Some t" for t
    using thirdHighest_rankedBids [OF ne dk that] .
  show ?thesis
  proof (cases "gameMode g = ''all-pay''")
    case True
    let ?g1 = "payAllBids g"
    have p1: "players ?g1 = map (\<lambda>p. p\<lparr>money := money p - betAmountOf g p\<rparr>) (players g)"
      by (simp add: payAllBids_def)
    have pids: "map pid (players ?g1) = map pid (players g)"
      by (simp add: p1)
    have d1: "distinct (map pid (players ?g1))" using dp by (simp only: pids)
    have "pid ` set (players ?g1) = set (map pid (players ?g1))" by (simp only: set_map)
    also have "\<dots> = pid ` set (players g)" by (simp only: pids set_map)
    finally have sub1: "set ?hb \<subseteq> pid ` set (players ?g1)" using sub by simp
    from awardWinners_map [OF hbs(4) hbs(2) sub1 d1, of None None]
    obtain ap where aw: "awardWinners None None ?frac ?hb ?g1 =
        Inr (?g1\<lparr>players := map (\<lambda>p. if pid p \<in> set ?hb then charge None ?frac p else p) (players ?g1),
                 actualPayments := ap\<rparr>)"
      by auto
    have pt: "(if pid p \<in> set ?hb then charge None ?frac (p\<lparr>money := money p - betAmountOf g p\<rparr>)
               else p\<lparr>money := money p - betAmountOf g p\<rparr>) = settlePlayer ''all-pay'' (bets g) p" for p
      by (simp add: charge_def settlePlayer_def paymentOf_def creditedWins_def betAmountOf_def hbs(1) hbs(3))
    have "map (\<lambda>p. if pid p \<in> set ?hb then charge None ?frac p else p) (players ?g1) =
          map (settlePlayer ''all-pay'' (bets g)) (players g)"
      unfolding p1 map_map by (rule map_cong [OF refl]) (simp add: pt [symmetric])
    then have "settle ?bids g =
        Inr (g\<lparr>players := map (settlePlayer (gameMode g) (bets g)) (players g), actualPayments := ap\<rparr>)"
      using True aw by (simp add: settle_def Let_def payAllBids_def)
    then show ?thesis by blast
  next
    case notAllPay: False
    let ?g1 = "zeroPayments g"
    have p1: "players ?g1 = players g" by (simp add: zeroPayments_def)
    have sub1: "set ?hb \<subseteq> pid ` set (players ?g1)" using sub by (simp only: p1)
    have d1: "distinct (map pid (players ?g1))" using dp by (simp only: p1)
    show ?thesis
    proof (cases "gameMode g = ''standard''")
      case True
      let ?pay = "Some (snd (hd ?bids))"
      from awardWinners_map [OF hbs(4) hbs(2) sub1 d1, of ?pay ?pay]
      obtain ap where aw: "awardWinners ?pay ?pay ?frac ?hb ?g1 =
          Inr (?g1\<lparr>players := map (\<lambda>p. if pid p \<in> set ?hb then charge ?pay ?frac p else p) (players ?g1),
                   actualPayments := ap\<rparr>)"
        by auto
      have pt: "(if pid p \<in> set ?hb then charge ?pay ?frac p else p) = settlePlayer ''standard'' (bets g) p" for p
        by (simp add: charge_def settlePlayer_def paymentOf_def creditedWins_def top hbs(1) hbs(3))
      have "settle ?bids g =
          Inr (g\<lparr>players := map (settlePlayer (gameMode g) (bets g)) (players g), actualPayments := ap\<rparr>)"
        using True aw by (simp add: settle_def Let_def zeroPayments_def pt)
      then show ?thesis by blast
    next
      case vickrey: False
      let ?sp = "Some (case secondHighestOf ?bids of Some s \<Rightarrow> s | None \<Rightarrow> snd (hd ?bids))"
      let ?tp = "Some (case thirdHighestOf ?bids of Some t \<Rightarrow> t
                       | None \<Rightarrow> (case secondHighestOf ?bids of Some s \<Rightarrow> s | None \<Rightarrow> 0))"
      from awardWinners_map [OF hbs(4) hbs(2) sub1 d1, of ?sp ?tp]
      obtain ap where aw: "awardWinners ?sp ?tp ?frac ?hb ?g1 =
          Inr (?g1\<lparr>players := map (\<lambda>p. if pid p \<in> set ?hb
                                         then charge (if length ?hb = 1 then ?sp else ?tp) ?frac p
                                         else p) (players ?g1),
                   actualPayments := ap\<rparr>)"
        by auto
      have price: "(if length ?hb = 1 then ?sp else ?tp) = Some (vickreyPrice (bets g))"
      proof (cases "length ?hb = 1")
        case True
        then show ?thesis
          by (simp add: vickreyPrice_def second top hbs(3))
      next
        case False
        show ?thesis
        proof (cases "thirdHighestOf ?bids")
          case None
          with False show ?thesis
            by (simp add: vickreyPrice_def second hbs(3))
        next
          case (Some t)
          with third [OF Some] False show ?thesis
            by (simp add: vickreyPrice_def hbs(3))
        qed
      qed
      have pt: "(if pid p \<in> set ?hb then charge (Some (vickreyPrice (bets g))) ?frac p else p) =
                settlePlayer (gameMode g) (bets g) p" for p
        using notAllPay vickrey
        by (simp add: charge_def settlePlayer_def paymentOf_def creditedWins_def hbs(1) hbs(3))
      have "settle ?bids g =
          Inr (g\<lparr>players := map (settlePlayer (gameMode g) (bets g)) (players g), actualPayments := ap\<rparr>)"
        using notAllPay vickrey aw unfolding price
        by (simp add: settle_def Let_def zeroPayments_def pt)
      then show ?thesis by blast
    qed
  qed
qed

lemma shouldEndGame_frame:
  "shouldEndGame (g\<lparr>players := ps\<rparr>) = shouldEndGame g'"
  if "gameMode g' = gameMode g" "players g' = ps" "roundsToWin g' = roundsToWin g"
    "currentRound g' = currentRound g" "totalRounds g' = totalRounds g"
  using that by (simp add: shouldEndGame_def)

lemma completeRound_settles:
  assumes closed: "ledgerClosed g"
  shows "\<exists>ap st ow. completeRound g =
           Inr (g\<lparr>lastRoundBets := bets g, showRoundResults := True,
                  secondHighestBid := secondHighestOf (rankedBids (bets g)),
                  thirdHighestBid := thirdHighestOf (rankedBids (bets g)),
                  players := map (settlePlayer (gameMode g) (bets g)) (players g),
                  actualPayments := ap,
                  roundWinners := Some (highestBiddersOf (rankedBids (bets g))),
                  status := st, overallWinner := ow\<rparr>) \<and>
           st = (if shouldEndGame (g\<lparr>players := map (settlePlayer (gameMode g) (bets g)) (players g)\<rparr>)
                 then GameComplete else RoundComplete)"
proof -
  let ?bids = "rankedBids (bets g)"
  let ?g2 = "g\<lparr>lastRoundBets := bets g, showRoundResults := True,
               secondHighestBid := secondHighestOf ?bids,
               thirdHighestBid := thirdHighestOf ?bids, actualPayments := []\<rparr>"
  from closed have c2: "ledgerClosed ?g2" and pne: "players g \<noteq> []" and bne: "bets g \<noteq> []"
    by (auto simp: ledgerClosed_def)
  from bne have len: "length ?bids \<noteq> 0" by (simp add: length_rankedBids)
  from settle_players [OF c2] obtain ap where
    st: "settle ?bids ?g2 =
       Inr (?g2\<lparr>players := map (settlePlayer (gameMode g) (bets g)) (players g),
                actualPayments := ap\<rparr>)"
    by auto
  let ?g3 = "?g2\<lparr>players := map (settlePlayer (gameMode g) (bets g)) (players g),
                actualPayments := ap,
                roundWinners := Some (highestBiddersOf ?bids), status := RoundComplete\<rparr>"
  from pne have "players ?g3 \<noteq> []" by simp
  from finishRound_result [OF this] obtain st' ow where
    fin: "finishRound ?g3 = Inr (?g3\<lparr>status := st', overallWinner := ow\<rparr>)"
      and st0: "st' = (if shouldEndGame ?g3 then GameComplete else status ?g3)"
    by blast
  from st0 have st': "st' = (if shouldEndGame ?g3 then GameComplete else RoundComplete)"
    by simp
  have "shouldEndGame (g\<lparr>players := map (settlePlayer (gameMode g) (bets g)) (players g)\<rparr>) =
        shouldEndGame ?g3"
    by (rule shouldEndGame_frame) simp_all
  with st' have st'': "st' =
      (if shouldEndGame (g\<lparr>players := map (settlePlayer (gameMode g) (bets g)) (players g)\<rparr>)
       then GameComplete else RoundComplete)"
    by simp
  have "completeRound g = Inr (?g3\<lparr>status := st', overallWinner := ow\<rparr>)"
    unfolding completeRound_def Let_def using len st fin by simp
  with st'' show ?thesis by auto
qed

subsection \<open>The arithmetic of doubles\<close>

text \<open>
  The doubles written 0.4, 0.3 and 0.2, which are not the fractions 2/5, 3/10 and 1/5 but
  near them; rounding a number from 1 on loses less than one part in \<open>2^52\<close>; and the
  sums of \<open>n\<close> equal credits of the table, as numbers and as doubles.
\<close>

lemma double_literals:
  "roundDouble (2 / 5) = 3602879701896397 / 9007199254740992"
  "roundDouble (3 / 10) = 5404319552844595 / 18014398509481984"
  "roundDouble (1 / 5) = 3602879701896397 / 18014398509481984"
  by code_simp+

lemma pow2_powi: "pow2 e = 2 powi e"
  by (simp add: pow2_def power_int_def field_simps)

lemma roundHalfEven_ge: "\<lfloor>q\<rfloor> \<le> roundHalfEven q"
  by (simp add: roundHalfEven_def Let_def)

lemma roundDouble_lower:
  assumes "1 \<le> x"
  shows "x * (1 - 1 / 2 ^ 52) < roundDouble x"
proof -
  let ?e = "bitlen \<lfloor>x\<rfloor> - 1"
  from assms have fl: "0 < \<lfloor>x\<rfloor>" by simp
  from bitlen_bounds [OF fl] have lo: "2 ^ nat ?e \<le> \<lfloor>x\<rfloor>" by simp
  from fl have e0: "0 \<le> ?e" using bitlen_eq_zero_iff [of "\<lfloor>x\<rfloor>"] bitlen_nonneg [of "\<lfloor>x\<rfloor>"] by linarith
  define ulp where "ulp = pow2 (?e - 52)"
  have ulp_pos: "0 < ulp" by (simp add: ulp_def pow2_powi)
  have "ulp * 2 ^ 52 = 2 powi ?e"
    by (simp add: ulp_def pow2_powi power_int_diff)
  also have "\<dots> = of_int (2 ^ nat ?e)" using e0 by (simp add: power_int_def)
  also have "\<dots> \<le> of_int \<lfloor>x\<rfloor>" using lo by (simp only: of_int_le_iff)
  also have "\<dots> \<le> x" by simp
  finally have ulp_le: "ulp \<le> x / 2 ^ 52" by (simp add: field_simps)
  from assms e0 have rd: "roundDouble x = of_int (roundHalfEven (x / ulp)) * ulp"
    by (simp add: roundDouble_def floorLog2_def Let_def ulp_def max_def)
  have "x / ulp - 1 < of_int \<lfloor>x / ulp\<rfloor>" by linarith
  also have "\<dots> \<le> of_int (roundHalfEven (x / ulp))"
    using roundHalfEven_ge [of "x / ulp"] by (simp only: of_int_le_iff)
  finally have "(x / ulp - 1) * ulp < roundDouble x"
    unfolding rd using ulp_pos by (simp only: mult_less_cancel_right_pos)
  moreover have "(x / ulp - 1) * ulp = x - ulp" using ulp_pos by (simp add: field_simps)
  ultimately have "x - ulp < roundDouble x" by simp
  with ulp_le show ?thesis by (simp add: field_simps)
qed

lemma addDouble_fifth:
  assumes "1 \<le> s"
  shows "1 < addDouble s (roundDouble (1 / 5))"
proof -
  let ?x = "s + roundDouble (1 / 5)"
  from assms have x: "6 / 5 \<le> ?x" by (simp add: double_literals)
  then have "1 \<le> ?x" by simp
  from roundDouble_lower [OF this] have "?x * (1 - 1 / 2 ^ 52) < addDouble s (roundDouble (1 / 5))"
    by (simp only: addDouble_def)
  moreover from x have "6 / 5 * (1 - 1 / 2 ^ 52) \<le> ?x * (1 - 1 / 2 ^ 52)"
    by (intro mult_right_mono) simp_all
  ultimately show ?thesis by simp
qed

lemma sumDoubles_Suc:
  "sumDoubles (replicate (Suc n) c) = addDouble (sumDoubles (replicate n c)) c"
proof -
  have "replicate (Suc n) c = replicate n c @ [c]" by (simp add: replicate_append_same)
  then show ?thesis by (simp only: sumDoubles_def foldl_append foldl.simps)
qed

lemma sumDoubles_small:
  "sumDoubles [1] = 1"
  "sumDoubles (replicate 2 (1 / 2)) = 1"
  "sumDoubles (replicate 3 (roundDouble (2 / 5))) = 1351079888211149 / 1125899906842624"
  "sumDoubles (replicate 4 (roundDouble (3 / 10))) = 5404319552844595 / 4503599627370496"
  "sumDoubles (replicate 5 (roundDouble (1 / 5))) = 1"
  by code_simp+

lemma sumDoubles_fifths:
  "1 < sumDoubles (replicate (6 + n) (roundDouble (1 / 5)))"
proof (induction n)
  case 0
  have "sumDoubles (replicate 6 (roundDouble (1 / 5))) =
        addDouble (sumDoubles (replicate 5 (roundDouble (1 / 5)))) (roundDouble (1 / 5))"
    using sumDoubles_Suc [of 5] by simp
  then show ?case using addDouble_fifth [of 1] by (simp add: sumDoubles_small)
next
  case (Suc n)
  then have "1 \<le> sumDoubles (replicate (6 + n) (roundDouble (1 / 5)))" by simp
  from addDouble_fifth [OF this] show ?case
    using sumDoubles_Suc [of "6 + n"] by simp
qed

lemma credit_totals:
  assumes "1 \<le> n"
  shows "(n \<le> 2 \<longrightarrow> of_nat n * getFractionalWinAmount n = 1)"
    "(3 \<le> n \<longrightarrow> 1 < of_nat n * getFractionalWinAmount n)"
    "(n \<le> 2 \<or> n = 5 \<longrightarrow> sumDoubles (replicate n (getFractionalWinAmount n)) = 1)"
    "(n = 3 \<or> n = 4 \<or> 6 \<le> n \<longrightarrow> 1 < sumDoubles (replicate n (getFractionalWinAmount n)))"
proof -
  consider "n = 1" | "n = 2" | "n = 3" | "n = 4" | "n = 5" | "6 \<le> n" using assms by linarith
  note cases = this
  show "(n \<le> 2 \<longrightarrow> of_nat n * getFractionalWinAmount n = 1)"
    using cases by cases (simp_all add: getFractionalWinAmount_def)
  show "(3 \<le> n \<longrightarrow> 1 < of_nat n * getFractionalWinAmount n)"
  proof
    assume n: "3 \<le> n"
    consider "n = 3" | "n = 4" | "5 \<le> n" using n by linarith
    then show "1 < of_nat n * getFractionalWinAmount n"
    proof cases
      case 3
      then have "(5 :: rat) \<le> of_nat n" by (metis of_nat_le_iff of_nat_numeral)
      then have "5 * (3602879701896397 / 18014398509481984) \<le> of_nat n * (3602879701896397 / 18014398509481984 :: rat)"
        by (intro mult_right_mono) simp_all
      with 3 show ?thesis by (simp add: getFractionalWinAmount_def double_literals)
    qed (simp_all add: getFractionalWinAmount_def double_literals)
  qed
  show "(n \<le> 2 \<or> n = 5 \<longrightarrow> sumDoubles (replicate n (getFractionalWinAmount n)) = 1)"
    using cases by cases (simp_all add: getFractionalWinAmount_def sumDoubles_small)
  show "(n = 3 \<or> n = 4 \<or> 6 \<le> n \<longrightarrow> 1 < sumDoubles (replicate n (getFractionalWinAmount n)))"
    using cases
  proof cases
    case 6
    then obtain k where k: "n = 6 + k" using le_Suc_ex by blast
    from 6 have "getFractionalWinAmount n = roundDouble (1 / 5)" by (simp add: getFractionalWinAmount_def)
    with sumDoubles_fifths [of k] k show ?thesis by simp
  qed (simp_all add: getFractionalWinAmount_def sumDoubles_small)
qed

lemma double_literals_near:
  "\<bar>roundDouble (2 / 5) - 2 / 5\<bar> < 1 / 2 ^ 54"
  "\<bar>roundDouble (3 / 10) - 3 / 10\<bar> < 1 / 2 ^ 55"
  "\<bar>roundDouble (1 / 5) - 1 / 5\<bar> < 1 / 2 ^ 55"
  by (simp_all add: double_literals)

lemma addDouble_zero_table:
  "addDouble 0 1 = 1" "addDouble 0 (1 / 2) = 1 / 2"
  "addDouble 0 (roundDouble (2 / 5)) = roundDouble (2 / 5)"
  "addDouble 0 (roundDouble (3 / 10)) = roundDouble (3 / 10)"
  "addDouble 0 (roundDouble (1 / 5)) = roundDouble (1 / 5)"
  by code_simp+

subsection \<open>What a settled round gives and takes\<close>

lemma completeRound_players:
  assumes "ledgerClosed g"
  shows "\<exists>g'. completeRound g = Inr g' \<and>
           players g' = map (settlePlayer (gameMode g) (bets g)) (players g)"
  using completeRound_settles [OF assms] by auto

lemma topBidders_bid:
  assumes "distinct (map fst ledger)"
  shows "(k \<in> set (topBidders ledger)) = (map_of ledger k = Some (topBid ledger))"
  using assms by (force simp: topBidders_def)

lemma ledgerClosed_topBidders:
  assumes "ledgerClosed g"
  shows "distinct (topBidders (bets g))" "set (topBidders (bets g)) \<subseteq> pid ` set (players g)"
    "length (topBidders (bets g)) \<ge> 1"
proof -
  from assms have ne: "bets g \<noteq> []" and dk: "distinct (map fst (bets g))"
    and keys: "set (map fst (bets g)) = set (map pid (players g))"
    by (auto simp: ledgerClosed_def)
  show "distinct (topBidders (bets g))"
    unfolding topBidders_def using dk by (simp add: distinct_map_filter)
  show "set (topBidders (bets g)) \<subseteq> pid ` set (players g)"
    using keys by (auto simp: topBidders_def)
  from highestBidders_rankedBids(3,4) [OF ne dk] show "length (topBidders (bets g)) \<ge> 1"
    by (cases "topBidders (bets g)") auto
qed

lemma others_lower:
  assumes "distinct (map fst ledger)"
  shows "map snd (filter (\<lambda>bid. fst bid \<notin> set (topBidders ledger)) ledger) = lowerBids ledger"
proof -
  have "(fst b \<notin> set (topBidders ledger)) = (snd b < topBid ledger)" if b: "b \<in> set ledger" for b
  proof -
    from b assms have "map_of ledger (fst b) = Some (snd b)" by simp
    then have "(fst b \<in> set (topBidders ledger)) = (snd b = topBid ledger)"
      by (simp add: topBidders_bid [OF assms])
    with topBid_ge [OF b] show ?thesis by auto
  qed
  then have "filter (\<lambda>bid. fst bid \<notin> set (topBidders ledger)) ledger =
             filter (\<lambda>bid. snd bid < topBid ledger) ledger"
    by (intro filter_cong) auto
  then show ?thesis by (simp add: lowerBids_def filter_map o_def)
qed

lemma thirdHighest_lower:
  assumes "distinct (map fst ledger)"
  shows "thirdHighest ledger =
     (if length (topBidders ledger) > 1 \<and> lowerBids ledger \<noteq> []
      then Some (Max (set (lowerBids ledger))) else None)"
proof -
  let ?others = "filter (\<lambda>bid. fst bid \<notin> set (topBidders ledger)) ledger"
  have "(?others = []) = (lowerBids ledger = [])"
    using others_lower [OF assms] by (metis map_is_Nil_conv)
  then show ?thesis
    unfolding thirdHighest_def Let_def others_lower [OF assms] by simp
qed

lemma thirdHighest_rankedBids_eq:
  assumes "obj \<noteq> []" "distinct (map fst obj)"
  shows "thirdHighestOf (rankedBids obj) = thirdHighest obj"
proof (cases "thirdHighestOf (rankedBids obj)")
  case (Some t)
  from thirdHighest_rankedBids [OF assms Some] have lower: "lowerBids obj \<noteq> []"
    and t: "t = Max (set (lowerBids obj))" by simp_all
  from Some have "length (highestBiddersOf (rankedBids obj)) > 1"
    by (simp add: thirdHighestOf_def Let_def split: if_splits)
  then have "length (topBidders obj) > 1"
    by (simp add: highestBidders_rankedBids(3) [OF assms])
  with lower t Some show ?thesis by (simp add: thirdHighest_lower [OF assms(2)])
next
  case None
  let ?bids = "rankedBids obj"
  let ?hb = "highestBiddersOf ?bids"
  have "\<not> (length (topBidders obj) > 1 \<and> lowerBids obj \<noteq> [])"
  proof
    assume a: "length (topBidders obj) > 1 \<and> lowerBids obj \<noteq> []"
    then have hb: "length ?hb > 1" by (simp add: highestBidders_rankedBids(3) [OF assms])
    from a obtain b where b: "b \<in> set obj" "snd b < topBid obj"
      by (auto simp: lowerBids_empty)
    then have bin: "b \<in> set ?bids" by (simp add: set_rankedBids)
    have bnot: "fst b \<notin> set ?hb"
    proof
      assume "fst b \<in> set ?hb"
      then have "fst b \<in> set (topBidders obj)"
        by (simp add: highestBidders_rankedBids(1) [OF assms])
      then have "map_of obj (fst b) = Some (topBid obj)"
        by (simp add: topBidders_bid [OF assms(2)])
      moreover from b(1) assms(2) have "map_of obj (fst b) = Some (snd b)" by simp
      ultimately show False using b(2) by simp
    qed
    from bin bnot have ne: "filter (\<lambda>bid. fst bid \<notin> set ?hb) ?bids \<noteq> []"
      by (auto simp: filter_empty_conv)
    have "card (set ?hb) = length ?hb"
      using highestBidders_rankedBids(2) [OF assms] by (rule distinct_card)
    have "set ?hb \<subseteq> fst ` set ?bids" by (auto simp: highestBiddersOf_def)
    moreover have "fst b \<in> fst ` set ?bids" using bin by auto
    ultimately have "insert (fst b) (set ?hb) \<subseteq> fst ` set ?bids" by auto
    then have "card (insert (fst b) (set ?hb)) \<le> card (fst ` set ?bids)"
      by (intro card_mono) auto
    also have "\<dots> \<le> length ?bids"
      by (metis card_image_le card_length le_trans List.finite_set)
    finally have "length ?bids > 2"
      using bnot hb \<open>card (set ?hb) = length ?hb\<close> by simp
    with hb ne None show False
      by (simp add: thirdHighestOf_def Let_def)
  qed
  with None show ?thesis by (simp add: thirdHighest_lower [OF assms(2)])
qed

lemma single_winner_has_second:
  assumes closed: "ledgerClosed g" and two: "2 \<le> length (players g)"
    and one: "length (topBidders (bets g)) = 1"
  shows "lowerBids (bets g) \<noteq> []"
proof -
  from closed have dk: "distinct (map fst (bets g))" and dp: "distinct (map pid (players g))"
    and keys: "set (map fst (bets g)) = set (map pid (players g))"
    by (auto simp: ledgerClosed_def)
  have "length (bets g) = card (set (map fst (bets g)))"
    using distinct_card [OF dk] by simp
  also have "\<dots> = card (set (map pid (players g)))" by (simp only: keys)
  also have "\<dots> = length (players g)" using distinct_card [OF dp] by simp
  finally have len: "length (bets g) = length (players g)" .
  have "length (filter (\<lambda>bid. snd bid = topBid (bets g)) (bets g)) = 1"
    using one by (simp add: topBidders_def)
  with sum_length_filter_compl [of "\<lambda>bid. snd bid = topBid (bets g)" "bets g"] len two
  have "filter (\<lambda>bid. \<not> snd bid = topBid (bets g)) (bets g) \<noteq> []" by auto
  then obtain b where b: "b \<in> set (bets g)" "snd b \<noteq> topBid (bets g)"
    by (auto simp: filter_empty_conv)
  with topBid_ge [OF b(1)] have "snd b < topBid (bets g)" by simp
  with b(1) show ?thesis by (auto simp: lowerBids_empty)
qed

lemma winners_count:
  assumes "distinct (map pid ps)" "distinct tb" "set tb \<subseteq> pid ` set ps"
  shows "length (filter (\<lambda>p. pid p \<in> set tb) ps) = length tb"
proof -
  have "length (filter (\<lambda>p. pid p \<in> set tb) ps) = length (filter (\<lambda>k. k \<in> set tb) (map pid ps))"
    by (simp add: filter_map o_def)
  also have "\<dots> = card ({k. k \<in> set tb} \<inter> set (map pid ps))"
    using assms(1) by (rule distinct_length_filter)
  also have "{k. k \<in> set tb} \<inter> set (map pid ps) = set tb"
    using assms(3) by auto
  also have "card (set tb) = length tb"
    using assms(2) by (rule distinct_card)
  finally show ?thesis .
qed

text \<open>
  C8. In All-Pay mode, settling a closed ledger returns normally, and every player pays
  exactly the own recorded bid \<open>b\<close>, winner or not: the money after is the money before
  minus \<open>b\<close>. Only the highest bidders are credited a win (the fractional win of the
  number of highest bidders, added to \<open>roundsWon\<close> as the program's \<^verbatim>\<open>+=\<close> adds it);
  every other field of a player is as before.
\<close>

theorem allPay_everyone_pays:
  assumes "gameMode g = ''all-pay''" and "ledgerClosed g"
  shows "\<exists>g'. completeRound g = Inr g' \<and>
     list_all2
       (\<lambda>p p'. \<exists>b. map_of (bets g) (pid p) = Some b \<and>
          p' = p\<lparr>money := money p - b,
                 roundsWon :=
                   (if b = topBid (bets g)
                    then addDouble (roundsWon p)
                           (getFractionalWinAmount (length (topBidders (bets g))))
                    else roundsWon p)\<rparr>)
       (players g) (players g')"
proof -
  from completeRound_players [OF assms(2)] obtain g' where
    g': "completeRound g = Inr g'" "players g' = map (settlePlayer ''all-pay'' (bets g)) (players g)"
    by (auto simp: assms(1))
  from assms(2) have dk: "distinct (map fst (bets g))"
    and keys: "set (map fst (bets g)) = set (map pid (players g))"
    by (auto simp: ledgerClosed_def)
  have "\<exists>b. map_of (bets g) (pid p) = Some b \<and>
          settlePlayer ''all-pay'' (bets g) p = p\<lparr>money := money p - b,
                 roundsWon :=
                   (if b = topBid (bets g)
                    then addDouble (roundsWon p)
                           (getFractionalWinAmount (length (topBidders (bets g))))
                    else roundsWon p)\<rparr>"
    if "p \<in> set (players g)" for p
  proof -
    from that keys have "pid p \<in> fst ` set (bets g)" by auto
    then obtain b where b: "map_of (bets g) (pid p) = Some b"
      by (cases "map_of (bets g) (pid p)") (auto simp: map_of_eq_None_iff)
    then show ?thesis
      by (simp add: settlePlayer_def paymentOf_def creditedWins_def topBidders_bid [OF dk])
  qed
  then have "list_all2
       (\<lambda>p p'. \<exists>b. map_of (bets g) (pid p) = Some b \<and>
          p' = p\<lparr>money := money p - b,
                 roundsWon :=
                   (if b = topBid (bets g)
                    then addDouble (roundsWon p)
                           (getFractionalWinAmount (length (topBidders (bets g))))
                    else roundsWon p)\<rparr>)
       (players g) (map (settlePlayer ''all-pay'' (bets g)) (players g))"
    by (simp add: list_all2_map2 list_all2_same)
  with g' show ?thesis by auto
qed

text \<open>With the bids 50, 30 and 10 the three players are left with 50, 70 and 90, and only the first has a win.\<close>

theorem allPay_everyone_pays_witness:
  "gameMode (threePlayers ''all-pay'' 50 30 10) = ''all-pay'' \<and>
   ledgerClosed (threePlayers ''all-pay'' 50 30 10) \<and>
   (\<exists>g'. completeRound (threePlayers ''all-pay'' 50 30 10) = Inr g' \<and>
      map money (players g') = [50, 70, 90] \<and> map roundsWon (players g') = [1, 0, 0])"
proof -
  let ?g = "threePlayers ''all-pay'' 50 30 10"
  have m: "gameMode ?g = ''all-pay''" by code_simp
  have c: "ledgerClosed ?g" by code_simp
  from allPay_everyone_pays [OF m c] obtain g' where
    g': "completeRound ?g = Inr g'" and
    rel: "list_all2
       (\<lambda>p p'. \<exists>b. map_of (bets ?g) (pid p) = Some b \<and>
          p' = p\<lparr>money := money p - b,
                 roundsWon :=
                   (if b = topBid (bets ?g)
                    then addDouble (roundsWon p)
                           (getFractionalWinAmount (length (topBidders (bets ?g))))
                    else roundsWon p)\<rparr>)
       (players ?g) (players g')"
    by blast
  have top: "topBid (bets ?g) = 50" "getFractionalWinAmount (length (topBidders (bets ?g))) = 1"
    by code_simp+
  from rel have vals: "map money (players g') = [50, 70, 90] \<and> map roundsWon (players g') = [1, 0, 0]"
    unfolding top
    by (auto simp: threePlayers_def exampleGame_def examplePlayer_def list_all2_Cons1
        addDouble_zero_table)
  show ?thesis
    by (intro conjI exI [of _ g']) (rule m c g' conjunct1 [OF vals] conjunct2 [OF vals])+
qed

text \<open>
  C2. In Vickrey mode (every mode but All-Pay and Standard), settling a closed ledger of a
  game with at least two players returns normally and charges only the highest bidders,
  each of them the same amount \<open>pay\<close>; every other player pays nothing. When there is
  exactly one highest bidder, the second-highest bid exists and is what the winner pays.
  When two or more tie for the highest bid, each pays the third-highest bid if it exists,
  else the second-highest bid if it exists, else 0. The second- and third-highest bids
  that the round records are those of the specification.

  Every round that the server settles has a closed ledger and at least two players
  (\<open>reachable_settlement\<close> below): the start route refuses a game with fewer than two
  players, and a round is settled only by the bet route, when the last player bids.
\<close>

theorem vickrey_winners_pay:
  assumes "gameMode g \<noteq> ''all-pay''" and "gameMode g \<noteq> ''standard''"
    and "ledgerClosed g" and "2 \<le> length (players g)"
  shows "\<exists>g' pay. completeRound g = Inr g' \<and>
     map pid (players g') = map pid (players g) \<and>
     map money (players g') =
       map (\<lambda>p. money p - (if pid p \<in> set (topBidders (bets g)) then pay else 0))
         (players g) \<and>
     1 \<le> length (topBidders (bets g)) \<and>
     (length (topBidders (bets g)) = 1 \<longrightarrow> secondHighest (bets g) = Some pay) \<and>
     (2 \<le> length (topBidders (bets g)) \<longrightarrow>
        pay = (case thirdHighest (bets g) of
                 Some t \<Rightarrow> t
               | None \<Rightarrow> (case secondHighest (bets g) of Some s \<Rightarrow> s | None \<Rightarrow> 0))) \<and>
     secondHighestBid g' = secondHighest (bets g) \<and>
     thirdHighestBid g' = thirdHighest (bets g)"
proof -
  from completeRound_settles [OF assms(3)] obtain g' where
    g': "completeRound g = Inr g'"
      "players g' = map (settlePlayer (gameMode g) (bets g)) (players g)"
      "secondHighestBid g' = secondHighestOf (rankedBids (bets g))"
      "thirdHighestBid g' = thirdHighestOf (rankedBids (bets g))"
    by auto
  from assms(3) have ne: "bets g \<noteq> []" and dk: "distinct (map fst (bets g))"
    by (auto simp: ledgerClosed_def)
  define pay where "pay = vickreyPrice (bets g)"
  have pids: "map pid (players g') = map pid (players g)"
    by (simp add: g'(2) settlePlayer_def)
  have paid: "map money (players g') =
       map (\<lambda>p. money p - (if pid p \<in> set (topBidders (bets g)) then pay else 0))
         (players g)"
    using assms(1,2) by (simp add: g'(2) settlePlayer_def paymentOf_def pay_def)
  note some = ledgerClosed_topBidders(3) [OF assms(3)]
  have single: "length (topBidders (bets g)) = 1 \<longrightarrow> secondHighest (bets g) = Some pay"
    using single_winner_has_second [OF assms(3,4)]
    by (simp add: secondHighest_def pay_def vickreyPrice_def)
  have tied: "2 \<le> length (topBidders (bets g)) \<longrightarrow>
        pay = (case thirdHighest (bets g) of
                 Some t \<Rightarrow> t
               | None \<Rightarrow> (case secondHighest (bets g) of Some s \<Rightarrow> s | None \<Rightarrow> 0))"
    by (simp add: pay_def vickreyPrice_def secondHighest_def thirdHighest_lower [OF dk])
  have second: "secondHighestBid g' = secondHighest (bets g)"
    by (simp only: g'(3) secondHighest_rankedBids [OF ne] secondHighest_def)
  have third: "thirdHighestBid g' = thirdHighest (bets g)"
    by (simp only: g'(4) thirdHighest_rankedBids_eq [OF ne dk])
  show ?thesis
    by (intro exI [of _ g'] exI [of _ pay] conjI)
       (rule g'(1) pids paid some single tied second third)+
qed

text \<open>
  The bids 50, 30, 10 cost the winner 30; the bids 40, 40, 20 cost both winners 20; the
  bids 40, 40 cost nobody anything.
\<close>

theorem vickrey_winners_pay_witness:
  "gameMode (threePlayers ''vickrey'' 50 30 10) \<noteq> ''all-pay'' \<and>
   gameMode (threePlayers ''vickrey'' 50 30 10) \<noteq> ''standard'' \<and>
   ledgerClosed (threePlayers ''vickrey'' 50 30 10) \<and>
   2 \<le> length (players (threePlayers ''vickrey'' 50 30 10)) \<and>
   length (topBidders (bets (threePlayers ''vickrey'' 50 30 10))) = 1 \<and>
   secondHighest (bets (threePlayers ''vickrey'' 50 30 10)) = Some 30 \<and>
   (\<exists>g'. completeRound (threePlayers ''vickrey'' 50 30 10) = Inr g' \<and>
      map money (players g') = [70, 100, 100]) \<and>
   ledgerClosed (threePlayers ''vickrey'' 40 40 20) \<and>
   2 \<le> length (players (threePlayers ''vickrey'' 40 40 20)) \<and>
   length (topBidders (bets (threePlayers ''vickrey'' 40 40 20))) = 2 \<and>
   thirdHighest (bets (threePlayers ''vickrey'' 40 40 20)) = Some 20 \<and>
   (\<exists>g'. completeRound (threePlayers ''vickrey'' 40 40 20) = Inr g' \<and>
      map money (players g') = [80, 80, 100]) \<and>
   ledgerClosed (twoPlayers ''vickrey'' 40 40) \<and>
   2 \<le> length (players (twoPlayers ''vickrey'' 40 40)) \<and>
   length (topBidders (bets (twoPlayers ''vickrey'' 40 40))) = 2 \<and>
   thirdHighest (bets (twoPlayers ''vickrey'' 40 40)) = None \<and>
   secondHighest (bets (twoPlayers ''vickrey'' 40 40)) = None \<and>
   (\<exists>g'. completeRound (twoPlayers ''vickrey'' 40 40) = Inr g' \<and>
      map money (players g') = [100, 100])"
proof -
  let ?a = "threePlayers ''vickrey'' 50 30 10"
  let ?b = "threePlayers ''vickrey'' 40 40 20"
  let ?c = "twoPlayers ''vickrey'' 40 40"
  have ma: "gameMode ?a \<noteq> ''all-pay''" "gameMode ?a \<noteq> ''standard''" by code_simp+
  have mb: "gameMode ?b \<noteq> ''all-pay''" "gameMode ?b \<noteq> ''standard''" by code_simp+
  have mc: "gameMode ?c \<noteq> ''all-pay''" "gameMode ?c \<noteq> ''standard''" by code_simp+
  have ca: "ledgerClosed ?a" and cb: "ledgerClosed ?b" and cc: "ledgerClosed ?c" by code_simp+
  have ta: "2 \<le> length (players ?a)" and tb: "2 \<le> length (players ?b)"
    and tc: "2 \<le> length (players ?c)" by code_simp+
  have na: "length (topBidders (bets ?a)) = 1" and nb: "length (topBidders (bets ?b)) = 2"
    and nc: "length (topBidders (bets ?c)) = 2" by code_simp+
  have sa: "secondHighest (bets ?a) = Some 30" by code_simp
  have hb: "thirdHighest (bets ?b) = Some 20" by code_simp
  have hc: "thirdHighest (bets ?c) = None" and sc: "secondHighest (bets ?c) = None" by code_simp+
  have va: "map (\<lambda>p. money p - (if pid p \<in> set (topBidders (bets ?a)) then 30 else 0))
              (players ?a) = [70, 100, 100]" by code_simp
  have vb: "map (\<lambda>p. money p - (if pid p \<in> set (topBidders (bets ?b)) then 20 else 0))
              (players ?b) = [80, 80, 100]" by code_simp
  have vc: "map (\<lambda>p. money p - (if pid p \<in> set (topBidders (bets ?c)) then 0 else 0))
              (players ?c) = [100, 100]" by code_simp
  from vickrey_winners_pay [OF ma ca ta] obtain ga pa where
    ga: "completeRound ?a = Inr ga"
    and mga: "map money (players ga) =
       map (\<lambda>p. money p - (if pid p \<in> set (topBidders (bets ?a)) then pa else 0)) (players ?a)"
    and ia: "length (topBidders (bets ?a)) = 1 \<longrightarrow> secondHighest (bets ?a) = Some pa"
    by blast
  from ia na sa have pa: "pa = 30" by simp
  from mga have vga: "map money (players ga) = [70, 100, 100]" unfolding pa va .
  have a: "\<exists>g'. completeRound ?a = Inr g' \<and> map money (players g') = [70, 100, 100]"
    by (rule exI [of _ ga], rule conjI [OF ga vga])
  from vickrey_winners_pay [OF mb cb tb] obtain gb pb where
    gb: "completeRound ?b = Inr gb"
    and mgb: "map money (players gb) =
       map (\<lambda>p. money p - (if pid p \<in> set (topBidders (bets ?b)) then pb else 0)) (players ?b)"
    and ib: "2 \<le> length (topBidders (bets ?b)) \<longrightarrow>
        pb = (case thirdHighest (bets ?b) of
                 Some t \<Rightarrow> t
               | None \<Rightarrow> (case secondHighest (bets ?b) of Some s \<Rightarrow> s | None \<Rightarrow> 0))"
    by blast
  from ib nb hb have pb: "pb = 20" by simp
  from mgb have vgb: "map money (players gb) = [80, 80, 100]" unfolding pb vb .
  have b: "\<exists>g'. completeRound ?b = Inr g' \<and> map money (players g') = [80, 80, 100]"
    by (rule exI [of _ gb], rule conjI [OF gb vgb])
  from vickrey_winners_pay [OF mc cc tc] obtain gc pc where
    gc: "completeRound ?c = Inr gc"
    and mgc: "map money (players gc) =
       map (\<lambda>p. money p - (if pid p \<in> set (topBidders (bets ?c)) then pc else 0)) (players ?c)"
    and ic: "2 \<le> length (topBidders (bets ?c)) \<longrightarrow>
        pc = (case thirdHighest (bets ?c) of
                 Some t \<Rightarrow> t
               | None \<Rightarrow> (case secondHighest (bets ?c) of Some s \<Rightarrow> s | None \<Rightarrow> 0))"
    by blast
  from ic nc hc sc have pc: "pc = 0" by simp
  from mgc have vgc: "map money (players gc) = [100, 100]" unfolding pc vc .
  have c: "\<exists>g'. completeRound ?c = Inr g' \<and> map money (players g') = [100, 100]"
    by (rule exI [of _ gc], rule conjI [OF gc vgc])
  show ?thesis
    by (intro conjI) (rule ma ca cb cc ta tb tc na nb nc sa hb hc sc a b c)+
qed

subsection \<open>Resetting a game\<close>

lemma hostCalls_checks:
  "hostCalls games gId user game =
     (games gId = Some game \<and> \<not> notInGame user gId \<and> \<not> notHost (findPlayer game user))"
  by (cases user) (auto simp: hostCalls_def notInGame_def notHost_def findPlayer_def split: option.splits)

lemma resetGame_success:
  assumes "hostCalls games gId user game"
  shows "resetGame games gId user =
     (JsonSuccess,
      games(gId \<mapsto>
        game\<lparr>players := map (\<lambda>p. p\<lparr>money := 100, roundsWon := 0\<rparr>) (players game),
             currentRound := 0, status := Waiting, bets := [], roundWinners := None,
             overallWinner := None, lastRoundBets := [], showRoundResults := False,
             secondHighestBid := None, actualPayments := []\<rparr>))"
  using assms by (simp add: hostCalls_checks resetGame_def)

lemma resetGame_failure:
  assumes "\<nexists>game. hostCalls games gId user game"
  shows "\<exists>code msg. resetGame games gId user = (JsonError code msg, games)"
  using assms by (auto simp: hostCalls_checks resetGame_def split: option.splits)

lemmas played_defs = playedRegistry_def playedGame_def annSession_def bobSession_def
  exampleGame_def examplePlayer_def

lemma ann_hosts: "hostCalls playedRegistry ''GAME01'' annSession playedGame"
  by (simp add: hostCalls_def played_defs)

lemma bob_no_host: "\<nexists>game. hostCalls playedRegistry ''GAME01'' bobSession game"
  by (auto simp: hostCalls_def played_defs)

text \<open>
  C9. When the caller is the host of an existing game, \<open>resetGame\<close> succeeds, in whatever
  phase the game is: every player's money is 100 and \<open>roundsWon\<close> is 0 again, nothing
  else of a player changes, no player is added, removed or reordered, \<open>currentRound\<close> is
  0 and the status is \<open>Waiting\<close>. In every other case (no such game, the session not of
  this game, the player not found or not the host) it answers with an error and leaves the
  registry as it was.
\<close>

theorem resetGame_restores:
  "(hostCalls games gId user game \<longrightarrow>
      (\<exists>game'. resetGame games gId user = (JsonSuccess, games(gId \<mapsto> game')) \<and>
         list_all2 (\<lambda>p p'. p' = p\<lparr>money := 100, roundsWon := 0\<rparr>) (players game) (players game') \<and>
         currentRound game' = 0 \<and> status game' = Waiting)) \<and>
   ((\<nexists>game. hostCalls games gId user game) \<longrightarrow>
      (\<exists>code msg. resetGame games gId user = (JsonError code msg, games)))"
proof (intro conjI impI)
  assume h: "hostCalls games gId user game"
  show "\<exists>game'. resetGame games gId user = (JsonSuccess, games(gId \<mapsto> game')) \<and>
         list_all2 (\<lambda>p p'. p' = p\<lparr>money := 100, roundsWon := 0\<rparr>) (players game) (players game') \<and>
         currentRound game' = 0 \<and> status game' = Waiting"
    by (rule exI, subst resetGame_success [OF h], intro conjI, rule refl)
       (simp_all add: list_all2_map2 list_all2_same)
next
  assume "\<nexists>game. hostCalls games gId user game"
  then show "\<exists>code msg. resetGame games gId user = (JsonError code msg, games)"
    by (rule resetGame_failure)
qed

text \<open>
  The host resets \<open>playedGame\<close>: 50, 70 and 90 become 100 each. The reset of another
  player is refused.
\<close>

theorem resetGame_restores_witness:
  "hostCalls playedRegistry ''GAME01'' annSession playedGame \<and>
   map money (players playedGame) = [50, 70, 90] \<and>
   (\<exists>game'. resetGame playedRegistry ''GAME01'' annSession =
        (JsonSuccess, playedRegistry(''GAME01'' \<mapsto> game')) \<and>
      map money (players game') = [100, 100, 100] \<and>
      map roundsWon (players game') = [0, 0, 0] \<and>
      map pid (players game') = [''ann'', ''bob'', ''cy''] \<and>
      currentRound game' = 0 \<and> status game' = Waiting) \<and>
   (\<nexists>game. hostCalls playedRegistry ''GAME01'' bobSession game) \<and>
   (\<exists>code msg. resetGame playedRegistry ''GAME01'' bobSession = (JsonError code msg, playedRegistry))"
proof -
  note inst = resetGame_restores [of playedRegistry "''GAME01''" _ playedGame]
  from inst [of annSession] ann_hosts obtain game' where
    g': "resetGame playedRegistry ''GAME01'' annSession =
           (JsonSuccess, playedRegistry(''GAME01'' \<mapsto> game'))"
      "list_all2 (\<lambda>p p'. p' = p\<lparr>money := 100, roundsWon := 0\<rparr>) (players playedGame) (players game')"
      "currentRound game' = 0" "status game' = Waiting"
    by auto
  from g'(2) have vals: "map money (players game') = [100, 100, 100]"
    "map roundsWon (players game') = [0, 0, 0]"
    "map pid (players game') = [''ann'', ''bob'', ''cy'']"
    by (auto simp: playedGame_def exampleGame_def examplePlayer_def list_all2_Cons1)
  have m: "map money (players playedGame) = [50, 70, 90]"
    by (simp add: playedGame_def exampleGame_def examplePlayer_def)
  from inst [of bobSession] bob_no_host
  have fail: "\<exists>code msg. resetGame playedRegistry ''GAME01'' bobSession = (JsonError code msg, playedRegistry)"
    by blast
  show ?thesis
    by (intro conjI exI [of _ game']) (rule ann_hosts m g' vals bob_no_host fail)+
qed

text \<open>
  C10. A successful \<open>resetGame\<close> leaves \<open>gameMode\<close>, \<open>totalRounds\<close> and
  \<open>roundsToWin\<close> as they were, and the ids, names and host flags of the players in their
  order; \<open>totalRounds\<close> does not go back to the 5 of a new game.
\<close>

theorem resetGame_frame:
  assumes "hostCalls games gId user game"
  shows "\<exists>game'. resetGame games gId user = (JsonSuccess, games(gId \<mapsto> game')) \<and>
     gameMode game' = gameMode game \<and> totalRounds game' = totalRounds game \<and>
     roundsToWin game' = roundsToWin game \<and>
     map pid (players game') = map pid (players game) \<and>
     map name (players game') = map name (players game) \<and>
     map host (players game') = map host (players game)"
  by (rule exI, subst resetGame_success [OF assms], intro conjI, rule refl)
     (simp_all add: o_def)

text \<open>The three-player game keeps its 7 rounds.\<close>

theorem resetGame_frame_witness:
  "hostCalls playedRegistry ''GAME01'' annSession playedGame \<and>
   (\<exists>game'. resetGame playedRegistry ''GAME01'' annSession =
        (JsonSuccess, playedRegistry(''GAME01'' \<mapsto> game')) \<and>
      gameMode game' = ''all-pay'' \<and> totalRounds game' = 7 \<and> roundsToWin game' = 3 \<and>
      map pid (players game') = [''ann'', ''bob'', ''cy''] \<and>
      map host (players game') = [True, False, False])"
proof -
  from resetGame_frame [OF ann_hosts] obtain game' where
    g': "resetGame playedRegistry ''GAME01'' annSession =
           (JsonSuccess, playedRegistry(''GAME01'' \<mapsto> game'))"
     "gameMode game' = gameMode playedGame" "totalRounds game' = totalRounds playedGame"
     "roundsToWin game' = roundsToWin playedGame"
     "map pid (players game') = map pid (players playedGame)"
     "map host (players game') = map host (players playedGame)"
    by blast
  have vals: "gameMode playedGame = ''all-pay''" "totalRounds playedGame = 7"
    "roundsToWin playedGame = 3" "map pid (players playedGame) = [''ann'', ''bob'', ''cy'']"
    "map host (players playedGame) = [True, False, False]"
    by (simp_all add: playedGame_def exampleGame_def examplePlayer_def)
  show ?thesis
    by (intro conjI exI [of _ game']) (rule ann_hosts g'(1) | simp only: g' vals)+
qed

subsection \<open>Placing a bid\<close>

text \<open>
  Whatever the ledger, a round whose bidders are all players of the game is settled without
  a throw, and the settlement leaves the ledger, the ids of the players and the round
  counters as they are.
\<close>

lemma map_pid_updateFirst:
  "(\<And>x. pid (f x) = pid x) \<Longrightarrow> map pid (updateFirst P f ps) = map pid ps"
  by (induction ps) simp_all

lemma creditWinner_returns:
  assumes "w \<in> pid ` set (players g)"
  shows "\<exists>ps ap. creditWinner payment credit w g = Inr (g\<lparr>players := ps, actualPayments := ap\<rparr>) \<and>
           map pid ps = map pid (players g)"
proof -
  from assms obtain winner where f: "find (\<lambda>p. pid p = w) (players g) = Some winner"
    by (cases "find (\<lambda>p. pid p = w) (players g)") (auto simp: find_None_iff)
  show ?thesis
  proof (cases payment)
    case None
    let ?ps = "updateFirst (\<lambda>p. pid p = w) (\<lambda>w. w\<lparr>roundsWon := addDouble (roundsWon w) credit\<rparr>) (players g)"
    have "creditWinner payment credit w g = Inr (g\<lparr>players := ?ps, actualPayments := actualPayments g\<rparr>)"
      by (simp add: creditWinner_def f None)
    moreover have "map pid ?ps = map pid (players g)"
      by (rule map_pid_updateFirst) simp
    ultimately show ?thesis by blast
  next
    case (Some pay)
    let ?ps = "updateFirst (\<lambda>p. pid p = w)
                 (\<lambda>w. w\<lparr>money := money w - pay, roundsWon := addDouble (roundsWon w) credit\<rparr>) (players g)"
    have "creditWinner payment credit w g =
       Inr (g\<lparr>players := ?ps, actualPayments := AList.update (pid winner) pay (actualPayments g)\<rparr>)"
      by (simp add: creditWinner_def f Some)
    moreover have "map pid ?ps = map pid (players g)"
      by (rule map_pid_updateFirst) simp
    ultimately show ?thesis by blast
  qed
qed

lemma forEachWinner_returns:
  assumes "set ws \<subseteq> pid ` set (players g)"
  shows "\<exists>ps ap. forEachWinner (creditWinner payment credit) ws g =
             Inr (g\<lparr>players := ps, actualPayments := ap\<rparr>) \<and>
           map pid ps = map pid (players g)"
  using assms
proof (induction ws arbitrary: g)
  case Nil
  have "forEachWinner (creditWinner payment credit) [] g =
      Inr (g\<lparr>players := players g, actualPayments := actualPayments g\<rparr>)"
    by simp
  then show ?case by blast
next
  case (Cons w ws)
  from Cons.prems have "w \<in> pid ` set (players g)" by simp
  from creditWinner_returns [OF this, of payment credit] obtain ps ap where
    step: "creditWinner payment credit w g = Inr (g\<lparr>players := ps, actualPayments := ap\<rparr>)"
      and pids: "map pid ps = map pid (players g)"
    by blast
  let ?g1 = "g\<lparr>players := ps, actualPayments := ap\<rparr>"
  have "pid ` set ps = set (map pid ps)" by (simp only: set_map)
  also have "\<dots> = pid ` set (players g)" by (simp only: pids set_map)
  finally have "set ws \<subseteq> pid ` set (players ?g1)" using Cons.prems by simp
  from Cons.IH [OF this] obtain ps' ap' where
    rest: "forEachWinner (creditWinner payment credit) ws ?g1 =
             Inr (?g1\<lparr>players := ps', actualPayments := ap'\<rparr>)"
      and pids': "map pid ps' = map pid (players ?g1)"
    by blast
  have "forEachWinner (creditWinner payment credit) (w # ws) g =
      Inr (g\<lparr>players := ps', actualPayments := ap'\<rparr>)"
    by (simp add: step rest)
  moreover have "map pid ps' = map pid (players g)" using pids' pids by simp
  ultimately show ?case by blast
qed

lemma awardWinners_returns:
  assumes "set hb \<subseteq> pid ` set (players g)"
  shows "\<exists>ps ap. awardWinners sp tp credit hb g = Inr (g\<lparr>players := ps, actualPayments := ap\<rparr>) \<and>
           map pid ps = map pid (players g)"
proof -
  consider "length hb = 1" | "length hb > 1" | "hb = []" by (cases hb) auto
  then show ?thesis
  proof cases
    case 1
    then obtain w where hb: "hb = [w]" by (cases hb) auto
    with assms have "w \<in> pid ` set (players g)" by simp
    from creditWinner_returns [OF this, of sp 1] show ?thesis
      by (simp add: awardWinners_def hb)
  next
    case 2
    with forEachWinner_returns [OF assms, of tp credit] show ?thesis
      by (simp add: awardWinners_def)
  next
    case 3
    have "awardWinners sp tp credit hb g =
        Inr (g\<lparr>players := players g, actualPayments := actualPayments g\<rparr>)"
      by (simp add: awardWinners_def 3)
    then show ?thesis by blast
  qed
qed

lemma settle_returns:
  assumes "set (highestBiddersOf bids) \<subseteq> pid ` set (players g)"
  shows "\<exists>ps ap. settle bids g = Inr (g\<lparr>players := ps, actualPayments := ap\<rparr>) \<and>
           map pid ps = map pid (players g)"
proof -
  let ?hb = "highestBiddersOf bids"
  have aw: "\<exists>ps ap. awardWinners sp tp credit ?hb g1 = Inr (g\<lparr>players := ps, actualPayments := ap\<rparr>) \<and>
           map pid ps = map pid (players g)"
    if g1: "g1 = g\<lparr>players := ps1, actualPayments := ap1\<rparr>" "map pid ps1 = map pid (players g)"
    for sp tp credit g1 ps1 ap1
  proof -
    have "pid ` set (players g1) = set (map pid ps1)" by (simp add: g1(1))
    also have "\<dots> = pid ` set (players g)" by (simp only: g1(2) set_map)
    finally have "set ?hb \<subseteq> pid ` set (players g1)" using assms by simp
    from awardWinners_returns [OF this, of sp tp credit] obtain ps ap where
      "awardWinners sp tp credit ?hb g1 = Inr (g1\<lparr>players := ps, actualPayments := ap\<rparr>)"
      "map pid ps = map pid (players g1)"
      by blast
    then have "awardWinners sp tp credit ?hb g1 = Inr (g\<lparr>players := ps, actualPayments := ap\<rparr>)"
      "map pid ps = map pid (players g)"
      by (simp_all add: g1)
    then show ?thesis by blast
  qed
  have pay: "payAllBids g = g\<lparr>players := players (payAllBids g), actualPayments := actualPayments (payAllBids g)\<rparr>"
    "map pid (players (payAllBids g)) = map pid (players g)"
    by (simp_all add: payAllBids_def)
  have zero: "zeroPayments g = g\<lparr>players := players g, actualPayments := actualPayments (zeroPayments g)\<rparr>"
    by (simp add: zeroPayments_def)
  show ?thesis
  proof (cases "gameMode g = ''all-pay''")
    case True
    then have "\<exists>sp tp credit. settle bids g = awardWinners sp tp credit ?hb (payAllBids g)"
      by (auto simp: settle_def Let_def)
    with aw [OF pay] show ?thesis by metis
  next
    case False
    then have "\<exists>sp tp credit. settle bids g = awardWinners sp tp credit ?hb (zeroPayments g)"
      by (auto simp: settle_def Let_def)
    with aw [OF zero refl] show ?thesis by metis
  qed
qed

lemma completeRound_returns:
  assumes keys: "set (map fst (bets g)) \<subseteq> set (map pid (players g))" and ne: "players g \<noteq> []"
  shows "\<exists>g'. completeRound g = Inr g' \<and> bets g' = bets g \<and>
           map pid (players g') = map pid (players g) \<and>
           gid g' = gid g \<and> createdAt g' = createdAt g \<and> gameMode g' = gameMode g \<and>
           currentRound g' = currentRound g \<and> totalRounds g' = totalRounds g \<and>
           roundsToWin g' = roundsToWin g \<and>
           (status g' = RoundComplete \<or> status g' = GameComplete)"
proof (cases "length (rankedBids (bets g)) = 0")
  case True
  then show ?thesis by (simp add: completeRound_def Let_def)
next
  case False
  let ?bids = "rankedBids (bets g)"
  let ?g2 = "g\<lparr>lastRoundBets := bets g, showRoundResults := True,
               secondHighestBid := secondHighestOf ?bids,
               thirdHighestBid := thirdHighestOf ?bids, actualPayments := []\<rparr>"
  have "set (highestBiddersOf ?bids) \<subseteq> fst ` set ?bids"
    by (auto simp: highestBiddersOf_def)
  also have "\<dots> = set (map fst (bets g))" by (simp add: set_rankedBids)
  also note keys
  finally have "set (highestBiddersOf ?bids) \<subseteq> pid ` set (players ?g2)" by simp
  from settle_returns [OF this] obtain ps ap where
    st: "settle ?bids ?g2 = Inr (?g2\<lparr>players := ps, actualPayments := ap\<rparr>)"
      and pids: "map pid ps = map pid (players g)"
    by auto
  let ?g3 = "?g2\<lparr>players := ps, actualPayments := ap,
                roundWinners := Some (highestBiddersOf ?bids), status := RoundComplete\<rparr>"
  from pids ne have "players ?g3 \<noteq> []" by auto
  from finishRound_result [OF this] obtain st' ow where
    fin: "finishRound ?g3 = Inr (?g3\<lparr>status := st', overallWinner := ow\<rparr>)"
      and st0: "st' = (if shouldEndGame ?g3 then GameComplete else status ?g3)"
    by blast
  from st0 have st': "st' = RoundComplete \<or> st' = GameComplete"
    by simp
  have "completeRound g = Inr (?g3\<lparr>status := st', overallWinner := ow\<rparr>)"
    unfolding completeRound_def Let_def using False st fin by simp
  with st' pids show ?thesis by auto
qed

lemma placeBet_rejected:
  assumes "\<nexists>game player a. betAccepted games gId user amount game player a"
  shows "\<exists>code msg. placeBet games gId user amount = (JsonError code msg, games)"
proof (cases "games gId")
  case None
  then show ?thesis by (simp add: placeBet_def)
next
  case (Some game)
  show ?thesis
  proof (cases "notInGame user gId")
    case True
    with Some show ?thesis by (simp add: placeBet_def)
  next
    case inGame: False
    then obtain u where u: "user = Some u" "gameId u = gId"
      by (cases user) (auto simp: notInGame_def)
    show ?thesis
    proof (cases "findPlayer game user")
      case None
      with Some inGame show ?thesis by (simp add: placeBet_def)
    next
      case (Some player)
      with u have f: "find (\<lambda>p. pid p = playerId u) (players game) = Some player"
        by (simp add: findPlayer_def)
      from assms \<open>games gId = Some game\<close> u f
      have "status game \<noteq> Betting \<or> map_of (bets game) (pid player) \<noteq> None \<or>
            (\<forall>a. amount = Some a \<longrightarrow> a < 0 \<or> a > money player)"
        unfolding betAccepted_def by force
      with \<open>games gId = Some game\<close> inGame Some show ?thesis
        by (auto simp: placeBet_def split: option.splits)
    qed
  qed
qed

lemma placeBet_accepted:
  assumes acc: "betAccepted games gId user amount game player a"
    and keys: "set (map fst (bets game)) \<subseteq> set (map pid (players game))"
  shows "\<exists>game'. placeBet games gId user amount = (JsonSuccess, games(gId \<mapsto> game')) \<and>
           map_of (bets game') (pid player) = Some a"
proof -
  from acc obtain u where g: "games gId = Some game" and u: "user = Some u" "gameId u = gId"
    and f: "find (\<lambda>p. pid p = playerId u) (players game) = Some player"
    and st: "status game = Betting" and nb: "map_of (bets game) (pid player) = None"
    and am: "amount = Some a" "0 \<le> a" "a \<le> money player"
    by (auto simp: betAccepted_def)
  from f have pin: "player \<in> set (players game)" by (auto simp: find_Some_iff)
  let ?placed = "game\<lparr>bets := AList.update (pid player) a (bets game)\<rparr>"
  have pb: "placeBet games gId user amount =
      (if allPlayersHaveBet ?placed then
         (case completeRound ?placed of
            Inl (e, thrown) \<Rightarrow> (ServerError e, games(gId \<mapsto> thrown))
          | Inr completed \<Rightarrow> (JsonSuccess, games(gId \<mapsto> completed)))
       else (JsonSuccess, games(gId \<mapsto> ?placed)))"
    using g u f st nb am by (simp add: placeBet_def notInGame_def findPlayer_def Let_def)
  have rec: "map_of (bets ?placed) (pid player) = Some a"
    by (simp add: update_conv')
  show ?thesis
  proof (cases "allPlayersHaveBet ?placed")
    case False
    with pb rec show ?thesis by auto
  next
    case True
    have "set (map fst (bets ?placed)) \<subseteq> set (map pid (players ?placed))"
      using keys pin by (auto simp: dom_update image_iff)
    moreover from pin have "players ?placed \<noteq> []" by auto
    ultimately obtain g' where g': "completeRound ?placed = Inr g'" "bets g' = bets ?placed"
      using completeRound_returns [of ?placed] by blast
    with pb True rec show ?thesis by auto
  qed
qed

lemmas betting_defs = bettingRegistry_def bettingGame_def annSession_def bobSession_def
  exampleGame_def examplePlayer_def

lemma ann_bets_40:
  "betAccepted bettingRegistry ''GAME01'' annSession (Some 40) bettingGame
     (examplePlayer ''ann'' 100 0 True) 40"
  by (simp add: betAccepted_def betting_defs)

lemma bob_bets_140:
  "\<nexists>game player a. betAccepted bettingRegistry ''GAME01'' bobSession (Some 140) game player a"
  by (auto simp: betAccepted_def betting_defs)

text \<open>
  C7. \<open>placeBet\<close> answers with an error and leaves the registry unchanged unless the
  game's status is betting, the caller is a recognized player of this game, the caller has
  not yet bid this round, and the amount is between 0 and the caller's money. When all of
  these hold, the call succeeds and the ledger of the game holds the bid (also when the bid
  closes the ledger and the round is settled in the same call). The bidders of the ledger
  are players of the game in every reachable registry (\<open>reachable_gameInv\<close> below).
\<close>

theorem placeBet_validates:
  "(betAccepted games gId user amount game player a \<and>
    set (map fst (bets game)) \<subseteq> set (map pid (players game)) \<longrightarrow>
      (\<exists>game'. placeBet games gId user amount = (JsonSuccess, games(gId \<mapsto> game')) \<and>
         map_of (bets game') (pid player) = Some a)) \<and>
   ((\<nexists>game player a. betAccepted games gId user amount game player a) \<longrightarrow>
      (\<exists>code msg. placeBet games gId user amount = (JsonError code msg, games)))"
  using placeBet_accepted placeBet_rejected by blast

text \<open>
  In \<open>bettingRegistry\<close> the bid 40 of a player with 100 is recorded, and the bid 140 of
  the other is rejected.
\<close>

theorem placeBet_validates_witness:
  "betAccepted bettingRegistry ''GAME01'' annSession (Some 40) bettingGame
     (examplePlayer ''ann'' 100 0 True) 40 \<and>
   set (map fst (bets bettingGame)) \<subseteq> set (map pid (players bettingGame)) \<and>
   (\<exists>game'. placeBet bettingRegistry ''GAME01'' annSession (Some 40) =
        (JsonSuccess, bettingRegistry(''GAME01'' \<mapsto> game')) \<and>
      map_of (bets game') ''ann'' = Some 40) \<and>
   (\<nexists>game player a. betAccepted bettingRegistry ''GAME01'' bobSession (Some 140) game player a) \<and>
   (\<exists>code msg. placeBet bettingRegistry ''GAME01'' bobSession (Some 140) =
        (JsonError code msg, bettingRegistry))"
proof -
  have keys: "set (map fst (bets bettingGame)) \<subseteq> set (map pid (players bettingGame))"
    by (simp add: betting_defs)
  from placeBet_validates [of bettingRegistry "''GAME01''" annSession "Some 40" bettingGame
      "examplePlayer ''ann'' 100 0 True" 40] ann_bets_40 keys
  have ok: "\<exists>game'. placeBet bettingRegistry ''GAME01'' annSession (Some 40) =
        (JsonSuccess, bettingRegistry(''GAME01'' \<mapsto> game')) \<and>
      map_of (bets game') ''ann'' = Some 40"
    by (simp add: examplePlayer_def)
  from placeBet_validates [of bettingRegistry "''GAME01''" bobSession "Some 140"] bob_bets_140
  have no: "\<exists>code msg. placeBet bettingRegistry ''GAME01'' bobSession (Some 140) =
        (JsonError code msg, bettingRegistry)"
    by blast
  show ?thesis
    by (intro conjI) (rule ann_bets_40 keys ok bob_bets_140 no)+
qed

subsection \<open>Every step keeps the invariant\<close>

lemma touches_same: "touches games games"
  by (simp add: touches_def)

lemma touches_upd: "games gId = Some game \<Longrightarrow> gameStep game game' \<Longrightarrow> touches games (games(gId \<mapsto> game'))"
  unfolding touches_def by blast

lemma startGame_touches: "touches games (snd (startGame games gId user))"
proof (cases "games gId")
  case None
  then show ?thesis by (simp add: startGame_def touches_same)
next
  case (Some game)
  show ?thesis
  proof (cases "length (players game) < 2")
    case True
    with Some show ?thesis by (simp add: startGame_def touches_same)
  next
    case False
    then have "gameStep game (game\<lparr>status := Betting, currentRound := 1, bets := []\<rparr>)"
      by (simp add: gameStep_def gameInv_def)
    from touches_upd [of games gId game, OF Some this] Some show ?thesis
      by (simp add: startGame_def touches_same)
  qed
qed

lemma resetGame_touches: "touches games (snd (resetGame games gId user))"
proof (cases "games gId")
  case None
  then show ?thesis by (simp add: resetGame_def touches_same)
next
  case (Some game)
  have "gameStep game
         (game\<lparr>players := map (\<lambda>p. p\<lparr>money := 100, roundsWon := 0\<rparr>) (players game),
               currentRound := 0, status := Waiting, bets := [], roundWinners := None,
               overallWinner := None, lastRoundBets := [], showRoundResults := False,
               secondHighestBid := None, actualPayments := []\<rparr>)"
    by (simp add: gameStep_def gameInv_def o_def)
  from touches_upd [of games gId game, OF Some this] Some show ?thesis
    by (simp add: resetGame_def touches_same)
qed

lemma hideResultsTimer_touches: "touches games (hideResultsTimer games gId)"
proof (cases "games gId")
  case None
  then show ?thesis by (simp add: hideResultsTimer_def touches_same)
next
  case (Some game)
  have "gameStep game (hideRoundResults game)"
    by (simp add: gameStep_def gameInv_def hideRoundResults_def)
  from touches_upd [of games gId game, OF Some this] Some show ?thesis
    by (simp add: hideResultsTimer_def)
qed

lemma determineOverallWinner_cases:
  "(\<exists>w. determineOverallWinner g = Inr (g\<lparr>overallWinner := Some w\<rparr>)) \<or>
   determineOverallWinner g = Inl (TypeError, g)"
  by (auto simp: determineOverallWinner_def Let_def split: option.splits)

lemma nextRound_touches: "touches games (snd (nextRound games gId user))"
proof (cases "games gId")
  case None
  then show ?thesis by (simp add: nextRound_def touches_same)
next
  case (Some game)
  show ?thesis
  proof (cases "status game = RoundComplete")
    case False
    with Some show ?thesis by (simp add: nextRound_def touches_same)
  next
    case True
    then have a: "gameStep game (game\<lparr>currentRound := currentRound game + 1, status := Betting,
                                   bets := [], roundWinners := None, showRoundResults := False\<rparr>)"
      by (simp add: gameStep_def gameInv_def)
    from True have b: "gameStep game (game\<lparr>status := GameComplete, overallWinner := w\<rparr>)" for w
      by (simp add: gameStep_def gameInv_def)
    from True have c: "gameStep game (game\<lparr>status := GameComplete\<rparr>)"
      by (simp add: gameStep_def gameInv_def)
    from determineOverallWinner_cases [of "game\<lparr>status := GameComplete\<rparr>"]
    show ?thesis
    proof
      assume "\<exists>w. determineOverallWinner (game\<lparr>status := GameComplete\<rparr>) =
                   Inr (game\<lparr>status := GameComplete, overallWinner := Some w\<rparr>)"
      then obtain w where "determineOverallWinner (game\<lparr>status := GameComplete\<rparr>) =
                   Inr (game\<lparr>status := GameComplete, overallWinner := Some w\<rparr>)" by blast
      with Some touches_upd [of games gId game, OF Some a]
        touches_upd [of games gId game, OF Some b [of "Some w"]] show ?thesis
        by (simp add: nextRound_def touches_same)
    next
      assume "determineOverallWinner (game\<lparr>status := GameComplete\<rparr>) =
                Inl (TypeError, game\<lparr>status := GameComplete\<rparr>)"
      with Some touches_upd [of games gId game, OF Some a]
        touches_upd [of games gId game, OF Some c] show ?thesis
        by (simp add: nextRound_def touches_same)
    qed
  qed
qed

lemma joinGame_touches:
  assumes "freshPlayerId games newPlayerId"
  shows "touches games (snd (joinGame games newPlayerId bodyGameId username))"
proof -
  have step: "gameStep game
      (game\<lparr>players := players game @ [\<lparr>pid = newPlayerId, name = n, money = 100, roundsWon = 0, host = False\<rparr>],
            totalRounds := getTotalRoundsForPlayerCount
              (length (players game @ [\<lparr>pid = newPlayerId, name = n, money = 100, roundsWon = 0, host = False\<rparr>]))\<rparr>)"
    if "games gId = Some game" "status game = Waiting" for gId game n
  proof -
    from that(1) have "game \<in> ran games" by (rule ranI)
    with assms have "newPlayerId \<notin> pid ` set (players game)"
      by (simp add: freshPlayerId_def)
    with that(2) show ?thesis
      by (auto simp: gameStep_def gameInv_def)
  qed
  show ?thesis
  proof (cases "noUsername username")
    case True
    then show ?thesis by (simp add: joinGame_def touches_same)
  next
    case named: False
    show ?thesis
    proof (cases bodyGameId)
      case None
      then show ?thesis by (simp add: joinGame_def touches_same)
    next
      case (Some raw)
      let ?gId = "toUpperCase raw"
      show ?thesis
      proof (cases "if ?gId = [] then None else games ?gId")
        case None
        with Some named show ?thesis by (simp add: joinGame_def touches_same)
      next
        case found: (Some game)
        then have g: "games ?gId = Some game" by (simp split: if_splits)
        show ?thesis
        proof (cases "status game = Waiting")
          case True
          from touches_upd [of games ?gId game, OF g step [OF g True]] Some named found True
          show ?thesis
            by (simp add: joinGame_def touches_same Let_def)
        next
          case False
          with Some named found show ?thesis by (simp add: joinGame_def touches_same)
        qed
      qed
    qed
  qed
qed

lemma createGame_cases:
  assumes "newGameId \<notin> dom games"
  shows "snd (createGame games newGameId newPlayerId now username bodyGameMode) = games \<or>
    (\<exists>game. snd (createGame games newGameId newPlayerId now username bodyGameMode) =
               games(newGameId \<mapsto> game) \<and> games newGameId = None \<and> gameInv game)"
proof (cases "noUsername username")
  case True
  then show ?thesis by (simp add: createGame_def)
next
  case False
  let ?game = "\<lparr>gid = newGameId, createdAt = now,
       gameMode = (case bodyGameMode of None \<Rightarrow> ''all-pay'' | Some m \<Rightarrow> if m = [] then ''all-pay'' else m),
       players = [\<lparr>pid = newPlayerId, name = the username, money = 100, roundsWon = 0, host = True\<rparr>],
       currentRound = 0, totalRounds = getTotalRoundsForPlayerCount 1, roundsToWin = 3,
       status = Waiting, bets = [], roundWinners = None, overallWinner = None,
       lastRoundBets = [], showRoundResults = False, secondHighestBid = None,
       thirdHighestBid = None, actualPayments = []\<rparr>"
  have "gameInv ?game" by (simp add: gameInv_def)
  moreover have "snd (createGame games newGameId newPlayerId now username bodyGameMode) =
               games(newGameId \<mapsto> ?game)"
    using False by (simp add: createGame_def Let_def)
  moreover from assms have "games newGameId = None" by auto
  ultimately show ?thesis by blast
qed

lemma cleanupGames_cases: "cleanupGames games now gId = None \<or> cleanupGames games now gId = games gId"
  by (simp add: cleanupGames_def split: option.splits)

lemma vickreyPrice_le_topBid:
  assumes "0 \<le> topBid ledger"
  shows "vickreyPrice ledger \<le> topBid ledger"
proof (cases "lowerBids ledger = []")
  case True
  with assms show ?thesis by (simp add: vickreyPrice_def)
next
  case False
  then have "Max (set (lowerBids ledger)) \<in> set (lowerBids ledger)"
    by (intro Max_in) auto
  then have "Max (set (lowerBids ledger)) < topBid ledger"
    by (simp add: lowerBids_def)
  then have "Max (set (lowerBids ledger)) \<le> topBid ledger"
    by (rule less_imp_le)
  with False show ?thesis by (simp only: vickreyPrice_def if_True simp_thms)
qed

text \<open>
  No settlement payment is above the payer's own bid: All-Pay and Standard payers pay the
  own bid, and the Vickrey payment is a bid that is not above the highest one.
\<close>

lemma payment_le_bid:
  assumes dk: "distinct (map fst ledger)"
    and nonneg: "\<forall>bid \<in> set ledger. 0 \<le> snd bid"
    and b: "map_of ledger k = Some b"
  shows "0 \<le> paymentOf mode ledger k \<and> paymentOf mode ledger k \<le> b"
proof -
  from b have kin: "(k, b) \<in> set ledger" by (rule map_of_SomeD)
  with nonneg have b0: "0 \<le> b" by auto
  show ?thesis
  proof (cases "k \<in> set (topBidders ledger)")
    case False
    with b b0 show ?thesis by (simp add: paymentOf_def)
  next
    case True
    with b have top: "topBid ledger = b" by (simp add: topBidders_bid [OF dk])
    have price0: "0 \<le> vickreyPrice ledger"
    proof (cases "lowerBids ledger = []")
      case True
      with b0 top show ?thesis by (simp add: vickreyPrice_def)
    next
      case False
      then have "Max (set (lowerBids ledger)) \<in> set (lowerBids ledger)"
        by (intro Max_in) auto
      then have "Max (set (lowerBids ledger)) \<in> snd ` set ledger"
        by (auto simp: lowerBids_def)
      with nonneg have "0 \<le> Max (set (lowerBids ledger))" by auto
      with False show ?thesis by (simp only: vickreyPrice_def if_True simp_thms)
    qed
    from b0 top have "vickreyPrice ledger \<le> b"
      using vickreyPrice_le_topBid [of ledger] by simp
    with price0 True b b0 top show ?thesis by (simp add: paymentOf_def)
  qed
qed

lemma payment_bounded:
  assumes closed: "ledgerClosed g"
    and bound: "\<forall>p \<in> set (players g). \<forall>b. map_of (bets g) (pid p) = Some b \<longrightarrow> 0 \<le> b \<and> b \<le> money p"
    and p: "p \<in> set (players g)"
  shows "paymentOf mode (bets g) (pid p) \<le> money p"
proof -
  from closed have dk: "distinct (map fst (bets g))"
    and keys: "set (map fst (bets g)) = set (map pid (players g))"
    by (auto simp: ledgerClosed_def)
  from p keys have "pid p \<in> fst ` set (bets g)" by auto
  then obtain b where b: "map_of (bets g) (pid p) = Some b"
    by (cases "map_of (bets g) (pid p)") (auto simp: map_of_eq_None_iff)
  with bound p have bb: "0 \<le> b" "b \<le> money p" by auto
  show ?thesis
  proof (cases "pid p \<in> set (topBidders (bets g))")
    case False
    with b bb show ?thesis by (simp add: paymentOf_def)
  next
    case True
    with b have top: "topBid (bets g) = b" by (simp add: topBidders_bid [OF dk])
    with bb vickreyPrice_le_topBid [of "bets g"] have "vickreyPrice (bets g) \<le> money p" by simp
    with True b bb top show ?thesis by (simp add: paymentOf_def)
  qed
qed

lemma completeRound_gameStep:
  assumes inv: "gameInv g" and betting: "status g = Betting" and all: "allPlayersHaveBet g"
  shows "\<exists>g'. completeRound g = Inr g' \<and> gameInv g' \<and> totalRounds g' = totalRounds g \<and>
           length (players g') = length (players g)"
proof -
  from inv betting have bound:
    "\<forall>p \<in> set (players g). \<forall>b. map_of (bets g) (pid p) = Some b \<longrightarrow> 0 \<le> b \<and> b \<le> money p"
    by (simp add: gameInv_def)
  from all have "set (map pid (players g)) \<subseteq> set (map fst (bets g))"
    by (auto simp: allPlayersHaveBet_def map_of_eq_None_iff)
  with inv have closed: "ledgerClosed g"
    by (auto simp: gameInv_def ledgerClosed_def)
  from completeRound_settles [OF closed] obtain ap st ow where
    g': "completeRound g =
           Inr (g\<lparr>lastRoundBets := bets g, showRoundResults := True,
                  secondHighestBid := secondHighestOf (rankedBids (bets g)),
                  thirdHighestBid := thirdHighestOf (rankedBids (bets g)),
                  players := map (settlePlayer (gameMode g) (bets g)) (players g),
                  actualPayments := ap,
                  roundWinners := Some (highestBiddersOf (rankedBids (bets g))),
                  status := st, overallWinner := ow\<rparr>)"
    and st: "st = RoundComplete \<or> st = GameComplete"
    by (metis (full_types))
  let ?g' = "g\<lparr>lastRoundBets := bets g, showRoundResults := True,
                  secondHighestBid := secondHighestOf (rankedBids (bets g)),
                  thirdHighestBid := thirdHighestOf (rankedBids (bets g)),
                  players := map (settlePlayer (gameMode g) (bets g)) (players g),
                  actualPayments := ap,
                  roundWinners := Some (highestBiddersOf (rankedBids (bets g))),
                  status := st, overallWinner := ow\<rparr>"
  have pids: "map pid (map (settlePlayer (gameMode g) (bets g)) (players g)) = map pid (players g)"
    by (simp add: settlePlayer_def)
  have money: "\<forall>p \<in> set (players g). 0 \<le> money (settlePlayer (gameMode g) (bets g) p)"
    using payment_bounded [OF closed bound] by (simp add: settlePlayer_def)
  from inv betting have two: "2 \<le> length (players g)" by (simp add: gameInv_def)
  have "gameInv ?g'"
    using inv st money two unfolding gameInv_def
    by (auto simp: pids simp del: map_map)
  with g' show ?thesis by auto
qed

lemma placed_gameInv:
  assumes inv: "gameInv game" and betting: "status game = Betting"
    and pl: "player \<in> set (players game)" and a: "0 \<le> a" "a \<le> money player"
  shows "gameInv (game\<lparr>bets := AList.update (pid player) a (bets game)\<rparr>)"
proof -
  from inv have dp: "distinct (map pid (players game))" by (simp add: gameInv_def)
  then have inj: "inj_on pid (set (players game))" by (simp add: distinct_map)
  have bound: "0 \<le> b \<and> b \<le> money p"
    if p: "p \<in> set (players game)"
      and b: "map_of (AList.update (pid player) a (bets game)) (pid p) = Some b" for p b
  proof (cases "pid p = pid player")
    case True
    with inj p pl have "p = player" by (auto dest: inj_onD)
    with b a show ?thesis by (simp add: update_conv')
  next
    case False
    with b have "map_of (bets game) (pid p) = Some b" by (simp add: update_conv')
    with inv betting p show ?thesis by (simp add: gameInv_def)
  qed
  have keys: "set (map fst (AList.update (pid player) a (bets game))) \<subseteq> set (map pid (players game))"
    using inv pl by (auto simp: gameInv_def dom_update image_iff)
  from inv have "distinct (map fst (AList.update (pid player) a (bets game)))"
    by (simp add: gameInv_def distinct_update)
  with inv keys bound show ?thesis
    unfolding gameInv_def by simp
qed

lemma placeBet_touches: "touches games (snd (placeBet games gId user amount))"
proof (cases "\<exists>game player a. betAccepted games gId user amount game player a")
  case False
  from placeBet_rejected [OF this] show ?thesis by (auto simp: touches_same)
next
  case True
  then obtain game player a u where g: "games gId = Some game" and u: "user = Some u" "gameId u = gId"
    and f: "find (\<lambda>p. pid p = playerId u) (players game) = Some player"
    and st: "status game = Betting" and nb: "map_of (bets game) (pid player) = None"
    and am: "amount = Some a" "0 \<le> a" "a \<le> money player"
    by (auto simp: betAccepted_def)
  from f have pin: "player \<in> set (players game)" by (auto simp: find_Some_iff)
  let ?placed = "game\<lparr>bets := AList.update (pid player) a (bets game)\<rparr>"
  define final where "final =
     (if allPlayersHaveBet ?placed then
        (case completeRound ?placed of Inl (e, thrown) \<Rightarrow> thrown | Inr completed \<Rightarrow> completed)
      else ?placed)"
  have res: "snd (placeBet games gId user amount) = games(gId \<mapsto> final)"
    using g u f st nb am
    by (simp add: placeBet_def notInGame_def findPlayer_def Let_def final_def
        split: sum.splits prod.splits)
  have "gameStep game final"
    unfolding gameStep_def
  proof (intro impI)
    assume inv: "gameInv game"
    from placed_gameInv [OF inv st pin am(2,3)] have pinv: "gameInv ?placed" .
    show "gameInv final \<and>
        (status game \<noteq> Waiting \<longrightarrow>
           totalRounds final = totalRounds game \<and> length (players final) = length (players game))"
    proof (cases "allPlayersHaveBet ?placed")
      case False
      with pinv show ?thesis by (simp add: final_def)
    next
      case True
      from st have "status ?placed = Betting" by simp
      from completeRound_gameStep [OF pinv this True] obtain g' where
        "completeRound ?placed = Inr g'" "gameInv g'" "totalRounds g' = totalRounds ?placed"
        "length (players g') = length (players ?placed)"
        by blast
      with True show ?thesis by (simp add: final_def)
    qed
  qed
  from touches_upd [of games gId game, OF g this] res show ?thesis by simp
qed

lemma step_game:
  assumes "step games games'" and "games' k = Some g'"
  shows "(\<exists>g. games k = Some g \<and> (g' = g \<or> gameStep g g')) \<or> (games k = None \<and> gameInv g')"
proof -
  have t: ?thesis if "touches games games'"
    using that assms(2) unfolding touches_def
    by (cases "games k") (auto split: if_splits)
  from assms show ?thesis
  proof (cases rule: step.cases)
    case (step_create newGameId newPlayerId now username bodyGameMode)
    from createGame_cases [OF step_create(2), of newPlayerId now username bodyGameMode]
      step_create(1) assms(2)
    show ?thesis by (cases "games k") (auto split: if_splits)
  next
    case (step_join newPlayerId bodyGameId username)
    with joinGame_touches [of games newPlayerId bodyGameId username] t show ?thesis by simp
  next
    case (step_start gId user)
    with startGame_touches [of games gId user] t show ?thesis by simp
  next
    case (step_bet gId user amount)
    with placeBet_touches [of games gId user amount] t show ?thesis by simp
  next
    case (step_next gId user)
    with nextRound_touches [of games gId user] t show ?thesis by simp
  next
    case (step_reset gId user)
    with resetGame_touches [of games gId user] t show ?thesis by simp
  next
    case (step_timer gId)
    with hideResultsTimer_touches [of games gId] t show ?thesis by simp
  next
    case (step_cleanup now)
    with cleanupGames_cases [of games now k] assms(2) have "games k = Some g'" by auto
    then show ?thesis by simp
  qed
qed

lemma reachable_gameInv:
  assumes "reachable games"
  shows "registryInv games"
  using assms
proof (induction rule: reachable.induct)
  case reachable_init
  show ?case by (simp add: registryInv_def)
next
  case (reachable_step games games')
  show ?case
    unfolding registryInv_def
  proof (intro allI impI)
    fix k g'
    assume "games' k = Some g'"
    from step_game [OF reachable_step(2) this] reachable_step(3)
    show "gameInv g'"
      by (auto simp: registryInv_def gameStep_def)
  qed
qed

text \<open>
  A game that has started has at least two players. So every round that the server settles
  (the bet route settles it, when the bid it accepts is the last one missing) has a closed
  ledger and at least two players, and is settled without a throw.
\<close>

lemma reachable_started_two_players:
  assumes "reachable games" and "games gId = Some game" and "status game \<noteq> Waiting"
  shows "2 \<le> length (players game)"
proof -
  from reachable_gameInv [OF assms(1)] assms(2) have "gameInv game"
    by (simp add: registryInv_def)
  with assms(3) show ?thesis by (simp add: gameInv_def)
qed

lemma reachable_settlement:
  assumes reach: "reachable games"
    and acc: "betAccepted games gId user amount game player a"
    and all: "allPlayersHaveBet (game\<lparr>bets := AList.update (pid player) a (bets game)\<rparr>)"
  shows "ledgerClosed (game\<lparr>bets := AList.update (pid player) a (bets game)\<rparr>) \<and>
     2 \<le> length (players (game\<lparr>bets := AList.update (pid player) a (bets game)\<rparr>)) \<and>
     (\<exists>g'. completeRound (game\<lparr>bets := AList.update (pid player) a (bets game)\<rparr>) = Inr g' \<and>
        placeBet games gId user amount = (JsonSuccess, games(gId \<mapsto> g')))"
proof -
  let ?placed = "game\<lparr>bets := AList.update (pid player) a (bets game)\<rparr>"
  from acc obtain u where g: "games gId = Some game" and u: "user = Some u" "gameId u = gId"
    and f: "find (\<lambda>p. pid p = playerId u) (players game) = Some player"
    and st: "status game = Betting" and nb: "map_of (bets game) (pid player) = None"
    and am: "amount = Some a" "0 \<le> a" "a \<le> money player"
    by (auto simp: betAccepted_def)
  from f have pin: "player \<in> set (players game)" by (auto simp: find_Some_iff)
  from reachable_gameInv [OF reach] g have inv: "gameInv game"
    by (simp add: registryInv_def)
  with st have two: "2 \<le> length (players ?placed)" by (simp add: gameInv_def)
  from placed_gameInv [OF inv st pin am(2,3)] have pinv: "gameInv ?placed" .
  from all have "set (map pid (players ?placed)) \<subseteq> set (map fst (bets ?placed))"
    by (auto simp: allPlayersHaveBet_def map_of_eq_None_iff)
  with pinv have closed: "ledgerClosed ?placed"
    by (auto simp: gameInv_def ledgerClosed_def)
  from completeRound_players [OF closed] obtain g' where g': "completeRound ?placed = Inr g'"
    by blast
  have "placeBet games gId user amount =
      (if allPlayersHaveBet ?placed then
         (case completeRound ?placed of
            Inl (e, thrown) \<Rightarrow> (ServerError e, games(gId \<mapsto> thrown))
          | Inr completed \<Rightarrow> (JsonSuccess, games(gId \<mapsto> completed)))
       else (JsonSuccess, games(gId \<mapsto> ?placed)))"
    using g u f st nb am by (simp add: placeBet_def notInGame_def findPlayer_def Let_def)
  with all g' have pb: "placeBet games gId user amount = (JsonSuccess, games(gId \<mapsto> g'))"
    by simp
  have ex: "\<exists>g'. completeRound ?placed = Inr g' \<and>
        placeBet games gId user amount = (JsonSuccess, games(gId \<mapsto> g'))"
    by (rule exI [of _ g'], rule conjI [OF g' pb])
  show ?thesis
    by (intro conjI) (rule closed two ex)+
qed

subsection \<open>A reachable registry\<close>

lemma firstRound_values: "map_option (\<lambda>g. (map pid (players g), map money (players g), totalRounds g, status g)) (firstRound ''GAME01'') = Some ([''ann'', ''bob'', ''cy''], [50, 70, 90], 7, RoundComplete)"
  by code_simp

lemma toUpperCase_game01: "toUpperCase ''game01'' = ''GAME01''"
  by code_simp

lemma usernames_given: "\<not> noUsername (Some ''ann'')" "\<not> noUsername (Some ''bob'')" "\<not> noUsername (Some ''cy'')"
  by code_simp+

lemma lobby1_single: "lobby1 = [''GAME01'' \<mapsto> the (lobby1 ''GAME01'')]"
  by (simp add: lobby1_def createGame_def usernames_given)

lemma lobby2_single: "lobby2 = [''GAME01'' \<mapsto> the (lobby2 ''GAME01'')]"
  unfolding lobby2_def by (subst (1 2) lobby1_single) (simp add: joinGame_def usernames_given toUpperCase_game01 Let_def)

lemma lobby_ids: "map_option (\<lambda>g. map pid (players g)) (lobby1 ''GAME01'') = Some [''ann'']"
  "map_option (\<lambda>g. map pid (players g)) (lobby2 ''GAME01'') = Some [''ann'', ''bob'']"
  by code_simp+

lemma fresh_single:
  assumes "games = [k \<mapsto> the (games k)]" "map_option (\<lambda>g. map pid (players g)) (games k) = Some ids" "new \<notin> set ids"
  shows "freshPlayerId games new"
proof -
  from assms(2) obtain g where g: "games k = Some g" "map pid (players g) = ids" by auto
  with assms(1) have "games = [k \<mapsto> g]" by simp
  then have "ran games = {g}" by simp
  with g(2) assms(3) show ?thesis by (auto simp: freshPlayerId_def)
qed

lemma reachable_lobby1: "reachable lobby1"
  unfolding lobby1_def
  by (rule reachable_step [OF reachable_init step_create]) (simp_all add: freshPlayerId_def)

lemma reachable_lobby2: "reachable lobby2"
  unfolding lobby2_def
  by (rule reachable_step [OF reachable_lobby1 step_join], rule fresh_single [OF lobby1_single lobby_ids(1)]) simp

lemma reachable_lobby3: "reachable lobby3"
  unfolding lobby3_def
  by (rule reachable_step [OF reachable_lobby2 step_join], rule fresh_single [OF lobby2_single lobby_ids(2)]) simp

lemma reachable_started: "reachable started"
  unfolding started_def by (rule reachable_step [OF reachable_lobby3 step_start])

lemma reachable_firstBid: "reachable firstBid"
  unfolding firstBid_def by (rule reachable_step [OF reachable_started step_bet])

lemma reachable_firstRound: "reachable firstRound"
  unfolding firstRound_def
  by (intro reachable_step [OF _ step_bet] reachable_firstBid)

lemma started_values:
  "map_option (\<lambda>g. (length (players g), status g)) (started ''GAME01'') = Some (3, Betting)"
  by code_simp

lemma firstBid_values:
  "map_option (\<lambda>g. bets g) (firstBid ''GAME01'') = Some [(''ann'', 50)]"
  by code_simp

lemma reachable_tieRound: "reachable tieRound"
  unfolding tieRound_def
  by (intro reachable_step [OF _ step_bet] reachable_started)

subsection \<open>The credit of a round\<close>

text \<open>
  C3, as the code has it. In every mode, settling a closed ledger credits each of the \<open>n\<close>
  highest bidders, and nobody else, the amount \<open>c\<close> of the table for \<open>n\<close>: 1 for one
  winner, 0.5 for two, and the doubles written 0.4, 0.3 and 0.2 for three, four, and five
  or more. The amount is added to the winner's \<open>roundsWon\<close> as the program's
  \<^verbatim>\<open>+=\<close> adds it; \<open>n\<close> players are credited. The credits of the round total 1 for one
  or two winners. For three or more winners they total more than 1 as numbers; added as
  doubles (\<open>sumDoubles\<close>) they total more than 1 for three, four, and six or more
  winners, and exactly 1 for five.
\<close>

theorem round_credit_per_winner:
  assumes "ledgerClosed g"
  shows "\<exists>g' n c. completeRound g = Inr g' \<and>
     n = length (topBidders (bets g)) \<and> 1 \<le> n \<and>
     c = getFractionalWinAmount n \<and>
     c = (if n = 1 then 1
          else if n = 2 then 1 / 2
          else if n = 3 then roundDouble (2 / 5)
          else if n = 4 then roundDouble (3 / 10)
          else roundDouble (1 / 5)) \<and>
     list_all2
       (\<lambda>p p'. roundsWon p' =
          (if pid p \<in> set (topBidders (bets g)) then addDouble (roundsWon p) c
           else roundsWon p))
       (players g) (players g') \<and>
     length (filter (\<lambda>p. pid p \<in> set (topBidders (bets g))) (players g)) = n \<and>
     (n \<le> 2 \<longrightarrow> of_nat n * c = 1) \<and>
     (3 \<le> n \<longrightarrow> 1 < of_nat n * c) \<and>
     (n \<le> 2 \<or> n = 5 \<longrightarrow> sumDoubles (replicate n c) = 1) \<and>
     (n = 3 \<or> n = 4 \<or> 6 \<le> n \<longrightarrow> 1 < sumDoubles (replicate n c))"
proof -
  let ?tb = "topBidders (bets g)"
  define n where "n = length ?tb"
  define c where "c = getFractionalWinAmount n"
  from completeRound_players [OF assms] obtain g' where
    g': "completeRound g = Inr g'"
      "players g' = map (settlePlayer (gameMode g) (bets g)) (players g)"
    by auto
  from assms have dp: "distinct (map pid (players g))" by (simp add: ledgerClosed_def)
  note tb = ledgerClosed_topBidders [OF assms]
  from tb(3) have n1: "1 \<le> n" by (simp add: n_def)
  have table: "c = (if n = 1 then 1
          else if n = 2 then 1 / 2
          else if n = 3 then roundDouble (2 / 5)
          else if n = 4 then roundDouble (3 / 10)
          else roundDouble (1 / 5))"
    using n1 by (simp add: c_def getFractionalWinAmount_def)
  have rel: "list_all2
       (\<lambda>p p'. roundsWon p' =
          (if pid p \<in> set ?tb then addDouble (roundsWon p) c else roundsWon p))
       (players g) (players g')"
    by (simp add: g'(2) list_all2_map2 list_all2_same settlePlayer_def creditedWins_def
        c_def n_def)
  have count: "length (filter (\<lambda>p. pid p \<in> set ?tb) (players g)) = n"
    unfolding n_def by (rule winners_count [OF dp tb(1) tb(2)])
  note totals = credit_totals [OF n1, folded c_def]
  show ?thesis
    by (intro exI [of _ g'] exI [of _ n] exI [of _ c] conjI)
       (rule g'(1) n_def n1 c_def table rel count totals)+
qed

text \<open>
  A three-way tie in Standard mode: each of the three is credited the double 0.4, which is
  more than 1 in total.
\<close>

theorem round_credit_per_winner_witness:
  "ledgerClosed (threePlayers ''standard'' 10 10 10) \<and>
   length (topBidders (bets (threePlayers ''standard'' 10 10 10))) = 3 \<and>
   (\<exists>g'. completeRound (threePlayers ''standard'' 10 10 10) = Inr g' \<and>
      map roundsWon (players g') =
        [roundDouble (2 / 5), roundDouble (2 / 5), roundDouble (2 / 5)]) \<and>
   1 < 3 * roundDouble (2 / 5) \<and>
   1 < sumDoubles (replicate 3 (roundDouble (2 / 5)))"
proof -
  let ?g = "threePlayers ''standard'' 10 10 10"
  have cl: "ledgerClosed ?g" by code_simp
  have three: "length (topBidders (bets ?g)) = 3" by code_simp
  from round_credit_per_winner [OF cl] obtain g' n c where
    g': "completeRound ?g = Inr g'" and n: "n = length (topBidders (bets ?g))"
    and c: "c = (if n = 1 then 1
          else if n = 2 then 1 / 2
          else if n = 3 then roundDouble (2 / 5)
          else if n = 4 then roundDouble (3 / 10)
          else roundDouble (1 / 5))"
    and rel: "list_all2
       (\<lambda>p p'. roundsWon p' =
          (if pid p \<in> set (topBidders (bets ?g)) then addDouble (roundsWon p) c
           else roundsWon p))
       (players ?g) (players g')"
    and exact: "3 \<le> n \<longrightarrow> 1 < of_nat n * c"
    and doubles: "n = 3 \<or> n = 4 \<or> 6 \<le> n \<longrightarrow> 1 < sumDoubles (replicate n c)"
    by blast
  from n three have n3: "n = 3" by simp
  with c have c3: "c = roundDouble (2 / 5)" by simp
  have top: "set (topBidders (bets ?g)) = {''ann'', ''bob'', ''cy''}" by code_simp
  from rel have vals: "map roundsWon (players g') =
        [roundDouble (2 / 5), roundDouble (2 / 5), roundDouble (2 / 5)]"
    unfolding top c3
    by (auto simp: threePlayers_def exampleGame_def examplePlayer_def list_all2_Cons1
        addDouble_zero_table)
  from exact n3 c3 have e: "1 < 3 * roundDouble (2 / 5)" by simp
  from doubles n3 c3 have d: "1 < sumDoubles (replicate 3 (roundDouble (2 / 5)))" by simp
  have ex: "\<exists>g'. completeRound ?g = Inr g' \<and>
      map roundsWon (players g') =
        [roundDouble (2 / 5), roundDouble (2 / 5), roundDouble (2 / 5)]"
    by (rule exI [of _ g'], rule conjI [OF g' vals])
  show ?thesis
    by (intro conjI) (rule cl three ex e d)+
qed

text \<open>
  C3 as the specification states it bounds the total credit of a round by 1. In the run
  \<open>tieRound\<close> the three players bid 10 each in the first round, and the third bid
  settles the round: each had 0 won rounds and has the double 0.4 after the round, and
  three times that is more than 1, as a number and as a sum of doubles.
\<close>

theorem round_credit_exceeds_one_counterexample:
  "reachable tieRound \<and>
   tieRound ''GAME01'' = Some (settled tieGame) \<and>
   ledgerClosed tieGame \<and>
   completeRound tieGame = Inr (settled tieGame) \<and>
   map roundsWon (players tieGame) = [0, 0, 0] \<and>
   map roundsWon (players (settled tieGame)) =
     [3602879701896397 / 9007199254740992, 3602879701896397 / 9007199254740992,
      3602879701896397 / 9007199254740992] \<and>
   \<not> (3602879701896397 / 9007199254740992 + 3602879701896397 / 9007199254740992 +
        3602879701896397 / 9007199254740992 \<le> (1 :: rat)) \<and>
   \<not> (sumDoubles [3602879701896397 / 9007199254740992, 3602879701896397 / 9007199254740992,
        3602879701896397 / 9007199254740992] \<le> 1)"
  by (intro conjI reachable_tieRound) code_simp+

subsection \<open>Money and the number of rounds along a run\<close>

text \<open>
  C4. In every game of every reachable registry, every player's money is at least 0; and
  while the game is in its betting phase, every bid in the ledger is between 0 and the
  bidder's current money, which is what the bet route checks before it records a bid. The
  settlement of any of the three modes takes from a player at most the own bid
  (\<open>payment_le_bid\<close>), so no step of the server makes a player's money negative.
\<close>

theorem money_never_negative:
  assumes "reachable games" and "games gId = Some game" and "p \<in> set (players game)"
  shows "0 \<le> money p \<and>
     (status game = Betting \<longrightarrow>
        (\<forall>b. map_of (bets game) (pid p) = Some b \<longrightarrow> 0 \<le> b \<and> b \<le> money p))"
proof -
  from reachable_gameInv [OF assms(1)] assms(2) have "gameInv game"
    by (simp add: registryInv_def)
  with assms(3) show ?thesis by (simp add: gameInv_def)
qed

text \<open>
  After the first round of the run above, the three players are left with 50, 70 and 90.
\<close>

theorem money_never_negative_witness:
  "reachable firstRound \<and>
   (\<exists>game. firstRound ''GAME01'' = Some game \<and> map money (players game) = [50, 70, 90] \<and>
      (\<forall>p \<in> set (players game). 0 \<le> money p))"
proof -
  from firstRound_values obtain game where
    g: "firstRound ''GAME01'' = Some game" "map money (players game) = [50, 70, 90]"
    by auto
  have "\<forall>p \<in> set (players game). 0 \<le> money p"
    using money_never_negative [OF reachable_firstRound g(1)] by blast
  with g show ?thesis
    by (intro conjI exI [of _ game] reachable_firstRound)
qed

text \<open>
  C6. In every game of every reachable registry \<open>totalRounds\<close> is the value of the
  total-round policy for the number of players: 5 for 2 or fewer, 7 for exactly 3, and 9 for
  4 or more. Once the game has started (its status is not \<open>Waiting\<close>), no step of the
  server changes its \<open>totalRounds\<close> or its number of players: the value is the one of
  the players present at the start. (The join route computes it at every join, and joining
  is refused after the start.)
\<close>

theorem totalRounds_fixed:
  assumes "reachable games" and "games gId = Some game"
  shows "totalRounds game = getTotalRoundsForPlayerCount (length (players game)) \<and>
     (length (players game) \<le> 2 \<longrightarrow> totalRounds game = 5) \<and>
     (length (players game) = 3 \<longrightarrow> totalRounds game = 7) \<and>
     (length (players game) \<ge> 4 \<longrightarrow> totalRounds game = 9) \<and>
     (\<forall>games' game'. step games games' \<and> status game \<noteq> Waiting \<and> games' gId = Some game' \<longrightarrow>
        totalRounds game' = totalRounds game \<and>
        length (players game') = length (players game))"
proof -
  from reachable_gameInv [OF assms(1)] assms(2) have inv: "gameInv game"
    by (simp add: registryInv_def)
  then have policy: "totalRounds game = getTotalRoundsForPlayerCount (length (players game))"
    by (simp add: gameInv_def)
  have kept: "totalRounds game' = totalRounds game \<and> length (players game') = length (players game)"
    if "step games games'" "status game \<noteq> Waiting" "games' gId = Some game'" for games' game'
    using step_game [OF that(1,3)] assms(2) inv that(2)
    by (auto simp: gameStep_def)
  have table: "(length (players game) \<le> 2 \<longrightarrow> totalRounds game = 5) \<and>
     (length (players game) = 3 \<longrightarrow> totalRounds game = 7) \<and>
     (length (players game) \<ge> 4 \<longrightarrow> totalRounds game = 9)"
    unfolding policy by (simp add: getTotalRoundsForPlayerCount_def)
  from policy table kept show ?thesis by blast
qed

text \<open>
  The game of the run above starts with three players and 7 rounds, and still has 7 rounds
  after the first bid.
\<close>

theorem totalRounds_fixed_witness:
  "reachable started \<and>
   (\<exists>game game'. started ''GAME01'' = Some game \<and> length (players game) = 3 \<and>
      status game = Betting \<and> totalRounds game = 7 \<and>
      step started firstBid \<and> firstBid ''GAME01'' = Some game' \<and>
      bets game' = [(''ann'', 50)] \<and> totalRounds game' = 7)"
proof -
  from started_values obtain game where
    g: "started ''GAME01'' = Some game" "length (players game) = 3" "status game = Betting"
    by auto
  from firstBid_values obtain game' where
    g': "firstBid ''GAME01'' = Some game'" "bets game' = [(''ann'', 50)]"
    by auto
  have st: "step started firstBid"
    unfolding firstBid_def by (rule step_bet)
  note fixed = totalRounds_fixed [OF reachable_started g(1)]
  from fixed g(2) have seven: "totalRounds game = 7" by simp
  from fixed st g(3) g'(1) have "totalRounds game' = totalRounds game" by auto
  with seven have seven': "totalRounds game' = 7" by simp
  show ?thesis
    by (intro conjI exI [of _ game] exI [of _ game'])
       (rule reachable_started g g' st seven seven')+
qed

subsection \<open>The termination predicate\<close>

lemma completeRound_checks_end:
  assumes "ledgerClosed g"
  shows "\<exists>g'. completeRound g = Inr g' \<and>
           status g' = (if shouldEndGame g' then GameComplete else RoundComplete)"
proof -
  from completeRound_settles [OF assms] obtain ap st ow where
    g': "completeRound g =
           Inr (g\<lparr>lastRoundBets := bets g, showRoundResults := True,
                  secondHighestBid := secondHighestOf (rankedBids (bets g)),
                  thirdHighestBid := thirdHighestOf (rankedBids (bets g)),
                  players := map (settlePlayer (gameMode g) (bets g)) (players g),
                  actualPayments := ap,
                  roundWinners := Some (highestBiddersOf (rankedBids (bets g))),
                  status := st, overallWinner := ow\<rparr>)"
    and st: "st = (if shouldEndGame (g\<lparr>players := map (settlePlayer (gameMode g) (bets g)) (players g)\<rparr>)
                 then GameComplete else RoundComplete)"
    by blast
  let ?g' = "g\<lparr>lastRoundBets := bets g, showRoundResults := True,
                  secondHighestBid := secondHighestOf (rankedBids (bets g)),
                  thirdHighestBid := thirdHighestOf (rankedBids (bets g)),
                  players := map (settlePlayer (gameMode g) (bets g)) (players g),
                  actualPayments := ap,
                  roundWinners := Some (highestBiddersOf (rankedBids (bets g))),
                  status := st, overallWinner := ow\<rparr>"
  have "shouldEndGame (g\<lparr>players := map (settlePlayer (gameMode g) (bets g)) (players g)\<rparr>) =
        shouldEndGame ?g'"
    by (rule shouldEndGame_frame) simp_all
  with st have "status ?g' = (if shouldEndGame ?g' then GameComplete else RoundComplete)"
    by simp
  with g' show ?thesis by (intro exI [of _ ?g'] conjI)
qed

lemma nextRound_checks_end:
  assumes host: "hostCalls games gId user game" and st: "status game = RoundComplete"
  shows "\<exists>game'. snd (nextRound games gId user) = games(gId \<mapsto> game') \<and>
           status game' = (if shouldEndGame game then GameComplete else Betting) \<and>
           currentRound game' =
             (if shouldEndGame game then currentRound game else currentRound game + 1)"
proof (cases "shouldEndGame game")
  case True
  from host have "players game \<noteq> []"
    by (auto simp: hostCalls_def find_Some_iff)
  then have "players (game\<lparr>status := GameComplete\<rparr>) \<noteq> []" by simp
  from determineOverallWinner_returns [OF this] obtain w where
    w: "determineOverallWinner (game\<lparr>status := GameComplete\<rparr>) =
       Inr (game\<lparr>status := GameComplete, overallWinner := Some w\<rparr>)"
    by auto
  let ?g' = "game\<lparr>status := GameComplete, overallWinner := Some w\<rparr>"
  have "snd (nextRound games gId user) = games(gId \<mapsto> ?g')"
    using host st True w by (simp add: hostCalls_checks nextRound_def)
  with True show ?thesis by (intro exI [of _ ?g']) simp
next
  case False
  let ?g' = "game\<lparr>currentRound := currentRound game + 1, status := Betting,
                   bets := [], roundWinners := None, showRoundResults := False\<rparr>"
  have "snd (nextRound games gId user) = games(gId \<mapsto> ?g')"
    using host st False by (simp add: hostCalls_checks nextRound_def)
  with False show ?thesis by (intro exI [of _ ?g']) simp
qed

text \<open>
  C5. In All-Pay mode \<open>shouldEndGame\<close> holds exactly when some player has
  \<open>roundsWon \<ge> roundsToWin\<close> or \<open>currentRound \<ge> totalRounds\<close>; in every other mode
  (Standard, Vickrey) it holds exactly when \<open>currentRound \<ge> totalRounds\<close>. It is
  evaluated after the settlement of a closed ledger, which leaves the game complete when
  it holds of the settled game and with its round complete otherwise, and before the host
  advances the round, which completes the game when it holds and opens the betting of the
  next round otherwise.
\<close>

theorem shouldEndGame_iff:
  "(gameMode g = ''all-pay'' \<longrightarrow>
      shouldEndGame g =
        ((\<exists>p \<in> set (players g). roundsWon p \<ge> of_int (roundsToWin g))
         \<or> currentRound g \<ge> totalRounds g)) \<and>
   (gameMode g \<noteq> ''all-pay'' \<longrightarrow> shouldEndGame g = (currentRound g \<ge> totalRounds g)) \<and>
   (ledgerClosed g \<longrightarrow>
      (\<exists>g'. completeRound g = Inr g' \<and>
         status g' = (if shouldEndGame g' then GameComplete else RoundComplete))) \<and>
   (hostCalls games gId user g \<and> status g = RoundComplete \<longrightarrow>
      (\<exists>g'. snd (nextRound games gId user) = games(gId \<mapsto> g') \<and>
         status g' = (if shouldEndGame g then GameComplete else Betting)))"
proof (intro conjI impI)
  assume "ledgerClosed g"
  then show "\<exists>g'. completeRound g = Inr g' \<and>
         status g' = (if shouldEndGame g' then GameComplete else RoundComplete)"
    by (rule completeRound_checks_end)
next
  assume "hostCalls games gId user g \<and> status g = RoundComplete"
  then have "hostCalls games gId user g" "status g = RoundComplete" by simp_all
  from nextRound_checks_end [OF this]
  show "\<exists>g'. snd (nextRound games gId user) = games(gId \<mapsto> g') \<and>
         status g' = (if shouldEndGame g then GameComplete else Betting)"
    by blast
qed (simp_all add: shouldEndGame_def)

text \<open>
  With a player at three wins in round 2 of 5 the All-Pay game ends and the Standard
  game does not; the first round of three players does not end the game; and the host of
  \<open>playedGame\<close> advances to the betting of the next round.
\<close>

theorem shouldEndGame_iff_witness:
  "gameMode threeWinsAllPay = ''all-pay'' \<and> shouldEndGame threeWinsAllPay \<and>
   gameMode threeWinsStandard \<noteq> ''all-pay'' \<and> \<not> shouldEndGame threeWinsStandard \<and>
   ledgerClosed (threePlayers ''all-pay'' 50 30 10) \<and>
   (\<exists>g'. completeRound (threePlayers ''all-pay'' 50 30 10) = Inr g' \<and>
      status g' = (if shouldEndGame g' then GameComplete else RoundComplete)) \<and>
   hostCalls playedRegistry ''GAME01'' annSession playedGame \<and>
   status playedGame = RoundComplete \<and>
   (\<exists>g'. snd (nextRound playedRegistry ''GAME01'' annSession) =
        playedRegistry(''GAME01'' \<mapsto> g') \<and> status g' = Betting)"
proof -
  let ?t = "threePlayers ''all-pay'' 50 30 10"
  have a: "gameMode threeWinsAllPay = ''all-pay''" "shouldEndGame threeWinsAllPay"
    using shouldEndGame_iff [of threeWinsAllPay]
    by (simp_all add: threeWinsAllPay_def exampleGame_def examplePlayer_def)
  have b: "gameMode threeWinsStandard \<noteq> ''all-pay''" "\<not> shouldEndGame threeWinsStandard"
    using shouldEndGame_iff [of threeWinsStandard]
    by (simp_all add: threeWinsStandard_def exampleGame_def examplePlayer_def)
  have c: "ledgerClosed ?t" by code_simp
  from shouldEndGame_iff [of ?t] c
  have d: "\<exists>g'. completeRound ?t = Inr g' \<and>
      status g' = (if shouldEndGame g' then GameComplete else RoundComplete)"
    by blast
  have e: "status playedGame = RoundComplete" "\<not> shouldEndGame playedGame"
    by code_simp+
  from shouldEndGame_iff [of playedGame playedRegistry "''GAME01''" annSession] ann_hosts e
  have f: "\<exists>g'. snd (nextRound playedRegistry ''GAME01'' annSession) =
        playedRegistry(''GAME01'' \<mapsto> g') \<and> status g' = Betting"
    by simp
  show ?thesis
    by (intro conjI) (rule a b c d ann_hosts e f)+
qed

end
